theory Spec2Isabelle
  imports Main "HOL-Library.Word"
begin

section \<open>Python values used by backend/main.py\<close>

text \<open>
  A Python \<open>str\<close> is modelled as a \<open>string\<close>, one \<open>char\<close> for each code point (so the
  model covers the texts over the code points below 256, and \<open>length\<close> is Python's \<open>len\<close>).
  Python integers are \<open>int\<close>. An exception that a function raises is the \<open>Inl\<close> branch of
  its result.
\<close>

datatype exn =
    HTTPException int string
  | Exception string
  | IndexError string
  | KeyError string
  | ValueError string

text \<open>\<open>str(n)\<close> for an integer: the decimal digits, after a minus sign when it is negative.\<close>

function str_nat :: "nat \<Rightarrow> string" where
  "str_nat n =
     (if n < 10 then [char_of (of_char CHR ''0'' + n)]
      else str_nat (n div 10) @ [char_of (of_char CHR ''0'' + n mod 10)])"
  by pat_completeness auto
termination
  by (relation "measure (\<lambda>n. n)") auto

definition str_int :: "int \<Rightarrow> string" where
  "str_int i = (if i < 0 then CHR ''-'' # str_nat (nat (- i)) else str_nat (nat i))"

text \<open>
  \<open>repr(s)\<close> for a string, which is what \<open>str\<close> gives for a \<open>KeyError\<close>. The quotes are
  single unless the string has a single quote and no double quote; the quote, the backslash
  and the characters that are not printable are escaped. Below 256 the printable characters
  are 32 to 126 and 161 to 255 without 173.
\<close>

definition printable :: "char \<Rightarrow> bool" where
  "printable c = ((32 \<le> (of_char c :: nat) \<and> (of_char c :: nat) < 127)
                  \<or> (161 \<le> (of_char c :: nat) \<and> (of_char c :: nat) \<noteq> 173))"

definition hex_digit :: "nat \<Rightarrow> char" where
  "hex_digit n = (if n < 10 then char_of (of_char CHR ''0'' + n)
                  else char_of (of_char CHR ''a'' + (n - 10)))"

definition repr_char :: "char \<Rightarrow> char \<Rightarrow> string" where
  "repr_char quote c =
     (if c = quote \<or> c = CHR 0x5C then [CHR 0x5C, c]
      else if c = CHR 0x09 then [CHR 0x5C, CHR ''t'']
      else if c = CHR 0x0A then [CHR 0x5C, CHR ''n'']
      else if c = CHR 0x0D then [CHR 0x5C, CHR ''r'']
      else if \<not> printable c then
        [CHR 0x5C, CHR ''x'', hex_digit ((of_char c :: nat) div 16),
         hex_digit ((of_char c :: nat) mod 16)]
      else [c])"

definition repr_str :: "string \<Rightarrow> string" where
  "repr_str s =
     (let quote = (if CHR 0x27 \<in> set s \<and> CHR 0x22 \<notin> set s then CHR 0x22 else CHR 0x27)
      in [quote] @ concat (map (repr_char quote) s) @ [quote])"

text \<open>
  \<open>str(e)\<close>, as the handlers put it into the \<open>detail\<close> of a response. An \<open>HTTPException\<close>
  prints its status code and its detail; a \<open>KeyError\<close> prints the \<open>repr\<close> of its key; the
  other exceptions print their message.
\<close>

fun str_exn :: "exn \<Rightarrow> string" where
  "str_exn (HTTPException code detail) = str_int code @ '': '' @ detail"
| "str_exn (Exception msg) = msg"
| "str_exn (IndexError msg) = msg"
| "str_exn (KeyError k) = repr_str k"
| "str_exn (ValueError msg) = msg"

definition startswith :: "string \<Rightarrow> string \<Rightarrow> bool" where
  "startswith s p = (take (length p) s = p)"

definition endswith :: "string \<Rightarrow> string \<Rightarrow> bool" where
  "endswith s suf = (length suf \<le> length s \<and> drop (length s - length suf) s = suf)"

text \<open>\<open>str.isspace\<close> on one character: the white space that \<open>str.strip()\<close> removes.\<close>

definition is_space :: "char \<Rightarrow> bool" where
  "is_space c = ((of_char c :: nat) \<in> {9, 10, 11, 12, 13, 28, 29, 30, 31, 32, 133, 160})"

definition strip :: "string \<Rightarrow> string" where
  "strip s = rev (dropWhile is_space (rev (dropWhile is_space s)))"

text \<open>\<open>sep.join(parts)\<close>.\<close>

fun join :: "string \<Rightarrow> string list \<Rightarrow> string" where
  "join sep [] = []"
| "join sep [x] = x"
| "join sep (x # y # ys) = x @ sep @ join sep (y # ys)"

section \<open>The text splitter that \<open>chunk_text\<close> constructs\<close>

text \<open>
  \<open>chunk_text\<close> builds a \<open>RecursiveCharacterTextSplitter\<close> of the library
  \<open>langchain_text_splitters\<close> with \<open>chunk_size=1000\<close>, \<open>chunk_overlap=200\<close> and
  \<open>length_function=len\<close>, and calls its \<open>create_documents\<close>. The definitions of this
  section follow the library's methods (\<open>_split_text_with_regex\<close>, \<open>_join_docs\<close>,
  \<open>_merge_splits\<close>, \<open>_split_text\<close>, \<open>create_documents\<close>); the fields that
  \<open>chunk_text\<close> does not set keep the library's defaults.
\<close>

record splitter =
  chunk_size :: int
  chunk_overlap :: int
  separators :: "string list"
  keep_separator :: bool
  strip_whitespace :: bool

text \<open>The constructor call of \<open>chunk_text\<close>, lines 81 to 85.\<close>

definition RecursiveCharacterTextSplitter :: "int \<Rightarrow> int \<Rightarrow> splitter" where
  "RecursiveCharacterTextSplitter csize overlap =
     \<lparr>chunk_size = csize, chunk_overlap = overlap,
      separators = [[CHR 0x0A, CHR 0x0A], [CHR 0x0A], '' '', ''''],
      keep_separator = True, strip_whitespace = True\<rparr>"

record document =
  page_content :: string
  metadata :: "(string \<times> string) list"

text \<open>\<open>re.search(re.escape(sep), text)\<close>: the position of the first occurrence of a literal.\<close>

fun find_first :: "string \<Rightarrow> string \<Rightarrow> nat option" where
  "find_first sep [] = (if sep = [] then Some 0 else None)"
| "find_first sep (c # cs) =
     (if startswith (c # cs) sep then Some 0 else map_option Suc (find_first sep cs))"

text \<open>
  \<open>re.split\<close> on a literal, non-empty separator: the pieces of the text between the
  successive matches, leftmost first and not overlapping.
\<close>

function re_split :: "string \<Rightarrow> string \<Rightarrow> string list" where
  "re_split sep text =
     (if sep = [] then [text]
      else case find_first sep text of
             None \<Rightarrow> [text]
           | Some i \<Rightarrow> take i text # re_split sep (drop (i + length sep) text))"
  by pat_completeness auto
termination
proof (relation "measure (\<lambda>(sep, text). length text)")
  show "wf (measure (\<lambda>(sep, text). length text))" by simp
next
  fix sep s :: string and i :: nat
  assume "sep \<noteq> []" and "find_first sep s = Some i"
  then have "s \<noteq> []" by (cases s) auto
  with \<open>sep \<noteq> []\<close> show "((sep, drop (i + length sep) s), (sep, s))
      \<in> measure (\<lambda>(sep, text). length text)"
    by (cases sep) auto
qed

text \<open>
  \<open>_split_text_with_regex(text, separator, keep_separator)\<close>. With the separator kept,
  \<open>re.split\<close> is called with a capturing group and returns the pieces with the separator
  between each two; the library glues each separator to the front of the piece after it.
\<close>

definition split_text_with_regex :: "string \<Rightarrow> string \<Rightarrow> bool \<Rightarrow> string list" where
  "split_text_with_regex text separator keep =
     filter (\<lambda>s. s \<noteq> [])
       (if separator \<noteq> [] then
          (if keep then
             (case re_split separator text of
                [] \<Rightarrow> []
              | t0 # ts \<Rightarrow> t0 # map (\<lambda>t. separator @ t) ts)
           else re_split separator text)
        else map (\<lambda>c. [c]) text)"

text \<open>\<open>_join_docs\<close>: \<open>None\<close> when the joined text is empty.\<close>

definition join_docs :: "splitter \<Rightarrow> string list \<Rightarrow> string \<Rightarrow> string option" where
  "join_docs sp docs separator =
     (let text = join separator docs;
          text = (if strip_whitespace sp then strip text else text)
      in if text = [] then None else Some text)"

text \<open>
  The \<open>while\<close> loop of \<open>_merge_splits\<close>, which drops pieces from the front of
  \<open>current_doc\<close>. \<open>current_doc[0]\<close> on an empty list raises \<open>IndexError\<close>.
\<close>

fun pop_front :: "splitter \<Rightarrow> int \<Rightarrow> int \<Rightarrow> int \<Rightarrow> string list \<Rightarrow> exn + (int \<times> string list)" where
  "pop_front sp separator_len len tot current_doc =
     (if tot > chunk_overlap sp
         \<or> (tot + len + (if length current_doc > 0 then separator_len else 0) > chunk_size sp
             \<and> tot > 0)
      then (case current_doc of
              [] \<Rightarrow> Inl (IndexError ''list index out of range'')
            | c # cs \<Rightarrow>
                pop_front sp separator_len len
                  (tot - (int (length c) + (if length current_doc > 1 then separator_len else 0)))
                  cs)
      else Inr (tot, current_doc))"

text \<open>
  One pass of the \<open>for d in splits\<close> loop of \<open>_merge_splits\<close>, on the loop's variables
  \<open>(docs, current_doc, total)\<close>.
\<close>

definition merge_step ::
  "splitter \<Rightarrow> string \<Rightarrow> string \<Rightarrow> string list \<times> string list \<times> int
     \<Rightarrow> exn + (string list \<times> string list \<times> int)" where
  "merge_step sp separator d st =
     (case st of (docs, current_doc, tot) \<Rightarrow>
        let separator_len = int (length separator);
            len = int (length d)
        in if tot + len + (if length current_doc > 0 then separator_len else 0) > chunk_size sp
              \<and> length current_doc > 0
           then
             (let docs' = docs @ (case join_docs sp current_doc separator of
                                    None \<Rightarrow> [] | Some doc \<Rightarrow> [doc])
              in case pop_front sp separator_len len tot current_doc of
                   Inl e \<Rightarrow> Inl e
                 | Inr (tot', current_doc') \<Rightarrow>
                     Inr (docs', current_doc' @ [d],
                          tot' + len + (if length (current_doc' @ [d]) > 1 then separator_len else 0)))
           else
             Inr (docs, current_doc @ [d],
                  tot + len + (if length (current_doc @ [d]) > 1 then separator_len else 0)))"

text \<open>The loop itself, and the last document that is joined after it.\<close>

fun merge_loop ::
  "splitter \<Rightarrow> string \<Rightarrow> string list \<Rightarrow> string list \<times> string list \<times> int \<Rightarrow> exn + string list" where
  "merge_loop sp separator [] st =
     (case st of (docs, current_doc, tot) \<Rightarrow>
        Inr (docs @ (case join_docs sp current_doc separator of None \<Rightarrow> [] | Some doc \<Rightarrow> [doc])))"
| "merge_loop sp separator (d # ds) st =
     (case merge_step sp separator d st of
        Inl e \<Rightarrow> Inl e
      | Inr st' \<Rightarrow> merge_loop sp separator ds st')"

definition merge_splits :: "splitter \<Rightarrow> string list \<Rightarrow> string \<Rightarrow> exn + string list" where
  "merge_splits sp splits separator = merge_loop sp separator splits ([], [], 0)"

text \<open>
  The first loop of \<open>_split_text\<close>, which chooses the separator: the first separator
  that is empty or occurs in the text, with the separators after it. \<open>None\<close> when the loop
  ends without \<open>break\<close>.
\<close>

fun choose_separator :: "string list \<Rightarrow> string \<Rightarrow> (string \<times> string list) option" where
  "choose_separator [] text = None"
| "choose_separator (s # rest) text =
     (if s = [] then Some ([], [])
      else if find_first s text \<noteq> None then Some (s, rest)
      else choose_separator rest text)"

text \<open>
  \<open>_split_text(text, separators)\<close>, and its second loop \<open>for s in splits\<close> on the loop's
  variables \<open>_good_splits\<close> and \<open>final_chunks\<close>. \<open>separators[-1]\<close> on an empty list
  raises \<open>IndexError\<close>.
\<close>

function split_text_rec :: "splitter \<Rightarrow> string \<Rightarrow> string list \<Rightarrow> exn + string list"
  and split_loop ::
    "splitter \<Rightarrow> string list \<Rightarrow> string \<Rightarrow> string list \<Rightarrow> string list \<Rightarrow> string list
       \<Rightarrow> exn + string list"
where
  "split_text_rec sp text seps =
     (if seps = [] then Inl (IndexError ''list index out of range'')
      else
        (case (case choose_separator seps text of
                 None \<Rightarrow> (last seps, [])
               | Some chosen \<Rightarrow> chosen) of
           (separator, new_separators) \<Rightarrow>
             split_loop sp new_separators (if keep_separator sp then [] else separator)
               (split_text_with_regex text separator (keep_separator sp)) [] []))"
| "split_loop sp new_separators msep [] good_splits final_chunks =
     (if good_splits \<noteq> [] then
        (case merge_splits sp good_splits msep of
           Inl e \<Rightarrow> Inl e
         | Inr merged_text \<Rightarrow> Inr (final_chunks @ merged_text))
      else Inr final_chunks)"
| "split_loop sp new_separators msep (s # ss) good_splits final_chunks =
     (if int (length s) < chunk_size sp then
        split_loop sp new_separators msep ss (good_splits @ [s]) final_chunks
      else
        (case (if good_splits \<noteq> [] then
                 (case merge_splits sp good_splits msep of
                    Inl e \<Rightarrow> Inl e
                  | Inr merged_text \<Rightarrow> Inr (final_chunks @ merged_text))
               else Inr final_chunks) of
           Inl e \<Rightarrow> Inl e
         | Inr final_chunks' \<Rightarrow>
             if new_separators = [] then
               split_loop sp new_separators msep ss [] (final_chunks' @ [s])
             else
               (case split_text_rec sp s new_separators of
                  Inl e \<Rightarrow> Inl e
                | Inr other_info \<Rightarrow>
                    split_loop sp new_separators msep ss [] (final_chunks' @ other_info))))"
  by pat_completeness auto
termination
apply (relation "measures
    [\<lambda>x. case x of Inl (sp, t, seps) \<Rightarrow> length seps
             | Inr (sp, new_separators, msep, splits, good, final) \<Rightarrow> length new_separators,
     \<lambda>x. case x of Inl (sp, t, seps) \<Rightarrow> 0
             | Inr (sp, new_separators, msep, splits, good, final) \<Rightarrow> Suc (length splits)]")
      apply simp_all
  subgoal for t seps x y
  proof -
    assume ne: "seps \<noteq> []"
      and ch: "(x, y) = (case choose_separator seps t of
                           None \<Rightarrow> (last seps, []) | Some chosen \<Rightarrow> chosen)"
    have shorter: "choose_separator xs t = Some (a, b) \<Longrightarrow> length b < length xs"
      for xs :: "string list" and a b
      by (induction xs) (auto split: if_splits)
    show "length y < length seps"
    proof (cases "choose_separator seps t")
      case None
      with ch ne show ?thesis by simp
    next
      case (Some chosen)
      with ch have "choose_separator seps t = Some (x, y)" by simp
      then show ?thesis by (rule shorter)
    qed
  qed
  done

text \<open>\<open>split_text\<close> and \<open>create_documents\<close>; no metadata is given and \<open>add_start_index\<close> is off.\<close>

definition split_text :: "splitter \<Rightarrow> string \<Rightarrow> exn + string list" where
  "split_text sp text = split_text_rec sp text (separators sp)"

fun create_documents_loop :: "splitter \<Rightarrow> string list \<Rightarrow> document list \<Rightarrow> exn + document list" where
  "create_documents_loop sp [] documents = Inr documents"
| "create_documents_loop sp (text # texts) documents =
     (case split_text sp text of
        Inl e \<Rightarrow> Inl e
      | Inr chunks \<Rightarrow>
          create_documents_loop sp texts
            (documents @ map (\<lambda>chunk. \<lparr>page_content = chunk, metadata = []\<rparr>) chunks))"

definition create_documents :: "splitter \<Rightarrow> string list \<Rightarrow> exn + document list" where
  "create_documents sp texts = create_documents_loop sp texts []"

section \<open>The world outside the process\<close>

text \<open>
  The handlers act on the file system, the uploaded stream, the Pinecone index, the language
  model and the standard output. The state they change is a record that every operation
  takes and returns; \<open>events\<close> lists the input and output actions in the order they happen.
\<close>

type_synonym bytes = "8 word list"

datatype io_event =
    FileWrite string
  | UploadClose
  | FileRead string
  | VectorStoreWrite "document list"
  | VectorStoreQuery string
  | LLMInvoke string
  | Print string

record world =
  files :: "string \<rightharpoonup> bytes"
  upload_closed :: bool
  index :: "document list"
  events :: "io_event list"

text \<open>
  What the collaborators outside the source file do is a parameter of the model:
  whether writing the upload fails, what PyPDF2 reads from the bytes of a file, what the
  Pinecone client and the Gemini model return or raise.
\<close>

datatype save_result =
    Saved
  | OpenFailed exn
  | CopyFailed nat exn

record env =
  save_outcome :: "string \<Rightarrow> bytes \<Rightarrow> save_result"
  open_error :: "string \<Rightarrow> exn"
  pdf_reader :: "bytes \<Rightarrow> exn + (exn + string) list"
  from_documents :: "document list \<Rightarrow> document list \<Rightarrow> exn option \<times> document list"
  retrieve :: "document list \<Rightarrow> nat \<Rightarrow> string \<Rightarrow> exn + document list"
  llm :: "string \<Rightarrow> exn + string"

definition emit :: "io_event \<Rightarrow> world \<Rightarrow> world" where
  "emit ev w = w\<lparr>events := events w @ [ev]\<rparr>"

definition newline :: char where
  "newline = CHR 0x0A"

text \<open>\<open>os.path.join(a, b)\<close> of \<open>posixpath\<close>.\<close>

definition os_path_join :: "string \<Rightarrow> string \<Rightarrow> string" where
  "os_path_join a b =
     (if startswith b ''/'' then b
      else if a = [] \<or> endswith a ''/'' then a @ b
      else a @ ''/'' @ b)"

section \<open>backend/main.py\<close>

definition UPLOAD_FOLDER :: string where
  "UPLOAD_FOLDER = ''temp_uploads''"

record ChatRequest =
  question :: string

record UploadFile =
  filename :: string
  content :: bytes

text \<open>The dictionary that \<open>upload_file\<close> returns, lines 127 to 131.\<close>

record upload_response =
  message :: string
  response_filename :: string
  total_chunks :: nat

text \<open>
  \<open>extract_text_from_pdf\<close>, lines 49 to 69. A page of \<open>reader.pages\<close> is the result of its
  \<open>extract_text()\<close>: the text, or the exception it raises. \<open>pages_loop\<close> is the \<open>for\<close> loop
  on \<open>text_content\<close>.
\<close>

fun pages_loop :: "(exn + string) list \<Rightarrow> string \<Rightarrow> exn + string" where
  "pages_loop [] text_content = Inr text_content"
| "pages_loop (page # pages) text_content =
     (case page of
        Inl e \<Rightarrow> Inl e
      | Inr extracted \<Rightarrow>
          pages_loop pages
            (if extracted \<noteq> [] then text_content @ extracted @ [newline] else text_content))"

definition extract_text_from_pdf :: "env \<Rightarrow> string \<Rightarrow> world \<Rightarrow> (exn + string) \<times> world" where
  "extract_text_from_pdf env filepath w =
     (let text_content = []
      in case files w filepath of
           None \<Rightarrow>
             (Inl (Exception (''Failed to read PDF text: '' @ str_exn (open_error env filepath))), w)
         | Some file \<Rightarrow>
             (let w1 = emit (FileRead filepath) w
              in case (case pdf_reader env file of
                         Inl e \<Rightarrow> Inl e
                       | Inr pages \<Rightarrow> pages_loop pages text_content) of
                   Inl e \<Rightarrow> (Inl (Exception (''Failed to read PDF text: '' @ str_exn e)), w1)
                 | Inr text_content \<Rightarrow> (Inr text_content, w1)))"

text \<open>\<open>chunk_text\<close>, lines 71 to 86.\<close>

definition chunk_text :: "string \<Rightarrow> exn + document list" where
  "chunk_text raw_text =
     (let text_splitter = RecursiveCharacterTextSplitter 1000 200
      in create_documents text_splitter [raw_text])"

text \<open>\<open>format_docs\<close>, lines 88 to 90.\<close>

definition format_docs :: "document list \<Rightarrow> string" where
  "format_docs docs = join [newline, newline] (map page_content docs)"

text \<open>
  Lines 103 to 105 of \<open>upload_file\<close>: the file is opened for writing and the uploaded stream
  is copied into it. When the copy fails the file holds the bytes written so far.
\<close>

definition save_upload :: "env \<Rightarrow> string \<Rightarrow> UploadFile \<Rightarrow> world \<Rightarrow> (exn + unit) \<times> world" where
  "save_upload env filepath file w =
     (case save_outcome env filepath (content file) of
        OpenFailed e \<Rightarrow> (Inl e, w)
      | CopyFailed n e \<Rightarrow>
          (Inl e, emit (FileWrite filepath) (w\<lparr>files := (files w)(filepath \<mapsto> take n (content file))\<rparr>))
      | Saved \<Rightarrow>
          (Inr (), emit (FileWrite filepath) (w\<lparr>files := (files w)(filepath \<mapsto> content file)\<rparr>)))"

text \<open>\<open>PineconeVectorStore.from_documents\<close>, lines 117 to 121.\<close>

definition PineconeVectorStore_from_documents ::
  "env \<Rightarrow> document list \<Rightarrow> world \<Rightarrow> (exn + unit) \<times> world" where
  "PineconeVectorStore_from_documents env documents w =
     (case from_documents env (index w) documents of
        (raised, index') \<Rightarrow>
          (case raised of None \<Rightarrow> Inr () | Some e \<Rightarrow> Inl e,
           emit (VectorStoreWrite documents) (w\<lparr>index := index'\<rparr>)))"

text \<open>The body of the second \<open>try\<close> of \<open>upload_file\<close>, lines 112 to 122.\<close>

definition upload_file_process ::
  "env \<Rightarrow> string \<Rightarrow> world \<Rightarrow> (exn + document list) \<times> world" where
  "upload_file_process env filepath w =
     (case extract_text_from_pdf env filepath w of
        (Inl e, w1) \<Rightarrow> (Inl e, w1)
      | (Inr raw_text, w1) \<Rightarrow>
          (case chunk_text raw_text of
             Inl e \<Rightarrow> (Inl e, w1)
           | Inr document_chunks \<Rightarrow>
               (let w2 = emit (Print (''INFO: Created '' @ str_nat (length document_chunks)
                                      @ '' total chunks. Generating vectors...'')) w1
                in case PineconeVectorStore_from_documents env document_chunks w2 of
                     (Inl e, w3) \<Rightarrow> (Inl e, w3)
                   | (Inr u, w3) \<Rightarrow>
                       (Inr document_chunks,
                        emit (Print ''INFO: Vectors successfully uploaded to Pinecone!'') w3))))"

text \<open>\<open>upload_file\<close>, lines 92 to 131.\<close>

definition upload_file :: "env \<Rightarrow> UploadFile \<Rightarrow> world \<Rightarrow> (exn + upload_response) \<times> world" where
  "upload_file env file w =
     (if \<not> endswith (filename file) ''.pdf'' then
        (Inl (HTTPException 400 ''Invalid file type. Only PDFs are allowed.''), w)
      else
        (let filepath = os_path_join UPLOAD_FOLDER (filename file)
         in case save_upload env filepath file w of
              (saved, w1) \<Rightarrow>
                (let w2 = emit UploadClose (w1\<lparr>upload_closed := True\<rparr>)
                 in case saved of
                      Inl e \<Rightarrow>
                        (Inl (HTTPException 500 (''Could not save file: '' @ str_exn e)), w2)
                    | Inr u \<Rightarrow>
                        (case upload_file_process env filepath w2 of
                           (Inl e, w3) \<Rightarrow> (Inl (HTTPException 500 (str_exn e)), w3)
                         | (Inr document_chunks, w3) \<Rightarrow>
                             (Inr \<lparr>message = ''File successfully uploaded and processed.'',
                                   response_filename = filename file,
                                   total_chunks = length document_chunks\<rparr>, w3)))))"

text \<open>
  \<open>PromptTemplate.from_template(template)\<close> and its \<open>format\<close>: the template is a Python
  format string. \<open>format_loop\<close> reads it from left to right, either in the literal text or
  inside the braces of a replacement field; a doubled brace stands for one brace, and a field
  is replaced by the value of the variable it names. (Fields with a conversion or a format
  specification do not occur in the template of \<open>chat_with_document\<close>.)
\<close>

datatype format_mode = Literal | Field string

fun format_loop :: "(string \<rightharpoonup> string) \<Rightarrow> format_mode \<Rightarrow> string \<Rightarrow> exn + string" where
  "format_loop kwargs Literal [] = Inr []"
| "format_loop kwargs (Field name) [] = Inl (ValueError ''expected '}' before end of string'')"
| "format_loop kwargs Literal (c # cs) =
     (if c = CHR ''{'' then
        (case cs of
           [] \<Rightarrow> Inl (ValueError ''Single '{' encountered in format string'')
         | d # ds \<Rightarrow>
             if d = CHR ''{'' then map_sum id (\<lambda>out. c # out) (format_loop kwargs Literal ds)
             else format_loop kwargs (Field []) cs)
      else if c = CHR ''}'' then
        (case cs of
           [] \<Rightarrow> Inl (ValueError ''Single '}' encountered in format string'')
         | d # ds \<Rightarrow>
             if d = CHR ''}'' then map_sum id (\<lambda>out. c # out) (format_loop kwargs Literal ds)
             else Inl (ValueError ''Single '}' encountered in format string''))
      else map_sum id (\<lambda>out. c # out) (format_loop kwargs Literal cs))"
| "format_loop kwargs (Field name) (c # cs) =
     (if c = CHR ''}'' then
        (case kwargs name of
           None \<Rightarrow> Inl (KeyError name)
         | Some v \<Rightarrow> map_sum id (\<lambda>out. v @ out) (format_loop kwargs Literal cs))
      else format_loop kwargs (Field (name @ [c])) cs)"

definition PromptTemplate_format :: "string \<Rightarrow> (string \<rightharpoonup> string) \<Rightarrow> exn + string" where
  "PromptTemplate_format tmpl kwargs = format_loop kwargs Literal tmpl"

text \<open>The template of \<open>chat_with_document\<close>, lines 147 to 155, with its line breaks and indentation.\<close>

definition template :: string where
  "template =
     ''Use the following pieces of retrieved context to answer the question. '' @ [newline] @
     ''        If you don't know the answer, just say that you don't know. '' @ [newline] @
     ''        Keep the answer concise and professional.'' @ [newline] @
     ''        '' @ [newline] @
     ''        Context: {context}'' @ [newline] @
     ''        '' @ [newline] @
     ''        Question: {question}'' @ [newline] @
     ''        '' @ [newline] @
     ''        Answer:''"

text \<open>
  The chain of lines 160 to 167, invoked on the question: the retriever with \<open>k = 3\<close> and
  \<open>format_docs\<close> give the context, the question passes through, the prompt is formatted, the
  model is called, and the output parser returns the text of its answer.
\<close>

definition rag_chain_invoke :: "env \<Rightarrow> string \<Rightarrow> world \<Rightarrow> (exn + string) \<times> world" where
  "rag_chain_invoke env input w =
     (let w1 = emit (VectorStoreQuery input) w
      in case retrieve env (index w) 3 input of
           Inl e \<Rightarrow> (Inl e, w1)
         | Inr docs \<Rightarrow>
             (case PromptTemplate_format template
                     [''context'' \<mapsto> format_docs docs, ''question'' \<mapsto> input] of
                Inl e \<Rightarrow> (Inl e, w1)
              | Inr prompt \<Rightarrow>
                  (let w2 = emit (LLMInvoke prompt) w1
                   in case llm env prompt of
                        Inl e \<Rightarrow> (Inl e, w2)
                      | Inr answer \<Rightarrow> (Inr answer, w2))))"

text \<open>\<open>chat_with_document\<close>, lines 133 to 172; the dictionary it returns has the one key \<open>answer\<close>.\<close>

definition chat_with_document :: "env \<Rightarrow> ChatRequest \<Rightarrow> world \<Rightarrow> (exn + string) \<times> world" where
  "chat_with_document env request w =
     (case rag_chain_invoke env (question request) w of
        (Inr answer, w1) \<Rightarrow> (Inr answer, w1)
      | (Inl e, w1) \<Rightarrow>
          (Inl (HTTPException 500 (str_exn e)),
           emit (Print (''CRITICAL ERROR: '' @ str_exn e)) w1))"

text \<open>\<open>str.lower\<close> on the letters of the upload's extension.\<close>

definition ascii_lower :: "char \<Rightarrow> char" where
  "ascii_lower c =
     (if (65::nat) \<le> of_char c \<and> of_char c \<le> (90::nat) then char_of (of_char c + (32::nat)) else c)"

section \<open>Sliding windows and the reassembly of chunks\<close>

text \<open>
  The windows of a fixed length over a list, each starting a fixed step after the one before;
  the last window holds what is left. They describe what the splitter returns on a text
  without white space, with the length 1000 and the step 800.
\<close>

function windows :: "nat \<Rightarrow> nat \<Rightarrow> 'a list \<Rightarrow> 'a list list" where
  "windows n step xs =
     (if length xs \<le> n \<or> step = 0 then [xs] else take n xs # windows n step (drop step xs))"
  by pat_completeness auto
termination
  by (relation "measure (\<lambda>(n, step, xs). length xs)") auto

declare windows.simps [simp del]

text \<open>
  The chunks put together again: the first chunk, then every later chunk without its first
  \<open>n\<close> characters (the overlap with the chunk before it).
\<close>

fun drop_overlap_concat :: "nat \<Rightarrow> string list \<Rightarrow> string" where
  "drop_overlap_concat n [] = []"
| "drop_overlap_concat n (c # cs) = c @ concat (map (drop n) cs)"

text \<open>
  The prompt that the template of \<open>chat_with_document\<close> stands for, with a context and a
  question in the places of its two fields.
\<close>

definition expected_prompt :: "string \<Rightarrow> string \<Rightarrow> string" where
  "expected_prompt context_text question_text =
     ''Use the following pieces of retrieved context to answer the question. '' @ [newline] @
     ''        If you don't know the answer, just say that you don't know. '' @ [newline] @
     ''        Keep the answer concise and professional.'' @ [newline] @
     ''        '' @ [newline] @
     ''        Context: '' @ context_text @ [newline] @
     ''        '' @ [newline] @
     ''        Question: '' @ question_text @ [newline] @
     ''        '' @ [newline] @
     ''        Answer:''"

section \<open>Concrete environments and requests\<close>

text \<open>
  An environment in which every collaborator succeeds: the upload is saved, the PDF has the
  given pages, the index takes every batch, the retriever returns the first records of the
  index and the model answers. The others differ from it in one collaborator that fails.
\<close>

definition env_ok :: "(exn + string) list \<Rightarrow> env" where
  "env_ok pages =
     \<lparr>save_outcome = (\<lambda>path data. Saved),
      open_error = (\<lambda>path. Exception ''No such file or directory''),
      pdf_reader = (\<lambda>data. Inr pages),
      from_documents = (\<lambda>idx docs. (None, idx @ docs)),
      retrieve = (\<lambda>idx k q. Inr (take k idx)),
      llm = (\<lambda>prompt. Inr ''I don't know.'')\<rparr>"

definition env_bad_pdf :: env where
  "env_bad_pdf = (env_ok [])\<lparr>pdf_reader := (\<lambda>data. Inl (Exception ''EOF marker not found''))\<rparr>"

definition env_store_down :: "(exn + string) list \<Rightarrow> env" where
  "env_store_down pages =
     (env_ok pages)\<lparr>from_documents := (\<lambda>idx docs. (Some (Exception ''index not found''), idx))\<rparr>"

definition env_disk_full :: env where
  "env_disk_full =
     (env_ok [])\<lparr>save_outcome := (\<lambda>path data. CopyFailed 1 (Exception ''No space left on device''))\<rparr>"

definition world0 :: world where
  "world0 = \<lparr>files = Map.empty, upload_closed = False, index = [], events = []\<rparr>"

definition report_pdf :: UploadFile where
  "report_pdf = \<lparr>filename = ''report.pdf'', content = [37, 80, 68, 70]\<rparr>"

definition world_paris :: world where
  "world_paris = world0\<lparr>index := [\<lparr>page_content = ''The capital of France is Paris.'', metadata = []\<rparr>]\<rparr>"

text \<open>
  The equations of the functions that are not defined by patterns are unfolded only where a
  proof asks for them.
\<close>

declare re_split.simps [simp del] pop_front.simps [simp del] str_nat.simps [simp del]
  split_text_rec.simps [simp del]

section \<open>The upload handler: validation, the stream and the saved file\<close>

text \<open>What \<open>str\<close> gives for a \<open>KeyError\<close> and for an \<open>HTTPException\<close>.\<close>

lemma str_exn_examples:
  "str_exn (KeyError ''context'') = [CHR 0x27] @ ''context'' @ [CHR 0x27]
   \<and> str_exn (HTTPException 418 ''teapot'') = ''418: teapot''
   \<and> str_exn (KeyError [CHR 0x27, CHR 0x0A, CHR 0x80]) = [CHR 0x22, CHR 0x27, CHR 0x5C, CHR ''n'', CHR 0x5C, CHR ''x'', CHR ''8'', CHR ''0'', CHR 0x22]"
  by code_simp

lemma endswith_report_pdf: "endswith ''report.pdf'' ''.pdf''"
  by (simp add: endswith_def)

lemma path_report_pdf: "os_path_join UPLOAD_FOLDER ''report.pdf'' = ''temp_uploads/report.pdf''"
  by (simp add: os_path_join_def UPLOAD_FOLDER_def startswith_def endswith_def)

lemma extract_text_from_pdf_frame:
  "\<exists>evs. snd (extract_text_from_pdf env filepath w) = w\<lparr>events := events w @ evs\<rparr>"
proof (cases "files w filepath")
  case None
  then have "snd (extract_text_from_pdf env filepath w) = w\<lparr>events := events w @ []\<rparr>"
    by (simp add: extract_text_from_pdf_def)
  then show ?thesis by blast
next
  case (Some data)
  then have "snd (extract_text_from_pdf env filepath w) = w\<lparr>events := events w @ [FileRead filepath]\<rparr>"
    by (simp add: extract_text_from_pdf_def Let_def emit_def split: sum.splits)
  then show ?thesis by blast
qed

lemma from_documents_frame:
  "\<exists>idx. snd (PineconeVectorStore_from_documents env docs w)
     = w\<lparr>index := idx, events := events w @ [VectorStoreWrite docs]\<rparr>"
  by (cases "from_documents env (index w) docs")
     (auto simp: PineconeVectorStore_from_documents_def emit_def)

lemma upload_file_process_frame:
  "\<exists>idx evs. snd (upload_file_process env filepath w) = w\<lparr>index := idx, events := events w @ evs\<rparr>"
proof -
  obtain r w1 where ex: "extract_text_from_pdf env filepath w = (r, w1)"
    by (cases "extract_text_from_pdf env filepath w")
  obtain e1 where w1: "w1 = w\<lparr>events := events w @ e1\<rparr>"
    using extract_text_from_pdf_frame [of env filepath w] ex by auto
  have base: "w1 = w\<lparr>index := index w, events := events w @ e1\<rparr>"
    by (simp add: w1)
  show ?thesis
  proof (cases r)
    case (Inl e)
    with ex have "snd (upload_file_process env filepath w) = w1"
      by (simp add: upload_file_process_def)
    with base show ?thesis by metis
  next
    case (Inr raw_text)
    show ?thesis
    proof (cases "chunk_text raw_text")
      case (Inl e)
      with ex Inr have "snd (upload_file_process env filepath w) = w1"
        by (simp add: upload_file_process_def)
      with base show ?thesis by metis
    next
      case chunks: (Inr document_chunks)
      define p where "p = Print (''INFO: Created '' @ str_nat (length document_chunks)
                                      @ '' total chunks. Generating vectors...'')"
      obtain r3 w3 where st: "PineconeVectorStore_from_documents env document_chunks (emit p w1) = (r3, w3)"
        by (cases "PineconeVectorStore_from_documents env document_chunks (emit p w1)")
      obtain idx where w3: "w3 = (emit p w1)\<lparr>index := idx,
          events := events (emit p w1) @ [VectorStoreWrite document_chunks]\<rparr>"
        using from_documents_frame [of env document_chunks "emit p w1"] st by auto
      have w3': "w3 = w\<lparr>index := idx, events := events w @ (e1 @ [p, VectorStoreWrite document_chunks])\<rparr>"
        by (simp add: w3 w1 emit_def)
      have res: "snd (upload_file_process env filepath w) = w3
          \<or> snd (upload_file_process env filepath w)
              = emit (Print ''INFO: Vectors successfully uploaded to Pinecone!'') w3"
        using ex Inr chunks st
        by (cases r3) (simp_all add: upload_file_process_def p_def)
      then show ?thesis
      proof
        assume "snd (upload_file_process env filepath w) = w3"
        with w3' show ?thesis by metis
      next
        assume "snd (upload_file_process env filepath w)
              = emit (Print ''INFO: Vectors successfully uploaded to Pinecone!'') w3"
        then have "snd (upload_file_process env filepath w)
           = w\<lparr>index := idx, events := events w @ (e1 @ [p, VectorStoreWrite document_chunks,
                  Print ''INFO: Vectors successfully uploaded to Pinecone!''])\<rparr>"
          by (simp add: w3' emit_def)
        then show ?thesis by metis
      qed
    qed
  qed
qed

text \<open>
  C3. An upload whose filename does not end in \<open>.pdf\<close> is answered with the HTTP error 400
  and the world is left as it was: no file is written or read, the uploaded stream is not
  touched, and no event is recorded.
\<close>

theorem upload_rejects_non_pdf:
  "\<not> endswith (filename file) ''.pdf'' \<Longrightarrow>
   upload_file env file w
     = (Inl (HTTPException 400 ''Invalid file type. Only PDFs are allowed.''), w)"
  by (simp add: upload_file_def)

theorem upload_rejects_non_pdf_witness:
  "\<not> endswith (filename \<lparr>filename = ''notes.txt'', content = [104, 105]\<rparr>) ''.pdf''
   \<and> upload_file (env_ok []) \<lparr>filename = ''notes.txt'', content = [104, 105]\<rparr> world0
     = (Inl (HTTPException 400 ''Invalid file type. Only PDFs are allowed.''), world0)"
proof -
  have h: "\<not> endswith (filename \<lparr>filename = ''notes.txt'', content = [104, 105]\<rparr>) ''.pdf''"
    by (simp add: endswith_def)
  from h upload_rejects_non_pdf [OF h, of "env_ok []" world0] show ?thesis by simp
qed


lemma upload_file_saved_world:
  assumes pdf: "endswith (filename file) ''.pdf''"
    and saved: "save_outcome env (os_path_join UPLOAD_FOLDER (filename file)) (content file) = Saved"
  shows "\<exists>idx evs. snd (upload_file env file w)
     = w\<lparr>files := (files w)(os_path_join UPLOAD_FOLDER (filename file) \<mapsto> content file),
          upload_closed := True, index := idx,
          events := events w @ [FileWrite (os_path_join UPLOAD_FOLDER (filename file)), UploadClose] @ evs\<rparr>"
proof -
  define filepath where "filepath = os_path_join UPLOAD_FOLDER (filename file)"
  define w2 where "w2 = w\<lparr>files := (files w)(filepath \<mapsto> content file), upload_closed := True,
                        events := events w @ [FileWrite filepath, UploadClose]\<rparr>"
  obtain r w3 where pr: "upload_file_process env filepath w2 = (r, w3)"
    by (cases "upload_file_process env filepath w2")
  obtain idx evs where w3: "w3 = w2\<lparr>index := idx, events := events w2 @ evs\<rparr>"
    using upload_file_process_frame [of env filepath w2] pr by auto
  have sv: "save_upload env filepath file w
      = (Inr (), emit (FileWrite filepath) (w\<lparr>files := (files w)(filepath \<mapsto> content file)\<rparr>))"
    using saved by (simp add: save_upload_def filepath_def)
  have w2': "emit UploadClose ((emit (FileWrite filepath) (w\<lparr>files := (files w)(filepath \<mapsto> content file)\<rparr>))
                \<lparr>upload_closed := True\<rparr>) = w2"
    by (simp add: w2_def emit_def)
  have "snd (upload_file env file w) = w3"
    using pdf sv pr
    by (cases r) (simp_all add: upload_file_def Let_def filepath_def [symmetric] w2')
  then have "snd (upload_file env file w)
     = w\<lparr>files := (files w)(filepath \<mapsto> content file),
          upload_closed := True, index := idx,
          events := events w @ [FileWrite filepath, UploadClose] @ evs\<rparr>"
    by (simp add: w3 w2_def)
  then show ?thesis unfolding filepath_def by blast
qed

lemma upload_file_not_saved:
  assumes pdf: "endswith (filename file) ''.pdf''"
    and failed: "save_outcome env (os_path_join UPLOAD_FOLDER (filename file)) (content file) \<noteq> Saved"
  shows "\<exists>e w1 pre. save_upload env (os_path_join UPLOAD_FOLDER (filename file)) file w = (Inl e, w1)
     \<and> events w1 = events w @ pre
     \<and> set pre \<subseteq> {FileWrite (os_path_join UPLOAD_FOLDER (filename file))}
     \<and> upload_file env file w
        = (Inl (HTTPException 500 (''Could not save file: '' @ str_exn e)),
           w1\<lparr>upload_closed := True, events := events w @ pre @ [UploadClose]\<rparr>)"
proof (cases "save_outcome env (os_path_join UPLOAD_FOLDER (filename file)) (content file)")
  case Saved
  with failed show ?thesis by simp
next
  case (OpenFailed e)
  with pdf have "save_upload env (os_path_join UPLOAD_FOLDER (filename file)) file w = (Inl e, w)
     \<and> events w = events w @ []
     \<and> set [] \<subseteq> {FileWrite (os_path_join UPLOAD_FOLDER (filename file))}
     \<and> upload_file env file w
        = (Inl (HTTPException 500 (''Could not save file: '' @ str_exn e)),
           w\<lparr>upload_closed := True, events := events w @ [] @ [UploadClose]\<rparr>)"
    by (simp add: upload_file_def save_upload_def Let_def emit_def)
  then show ?thesis by blast
next
  case (CopyFailed n e)
  define p where "p = os_path_join UPLOAD_FOLDER (filename file)"
  define w1 where "w1 = emit (FileWrite p) (w\<lparr>files := (files w)(p \<mapsto> take n (content file))\<rparr>)"
  from CopyFailed pdf have "save_upload env p file w = (Inl e, w1)
     \<and> events w1 = events w @ [FileWrite p]
     \<and> set [FileWrite p] \<subseteq> {FileWrite p}
     \<and> upload_file env file w
        = (Inl (HTTPException 500 (''Could not save file: '' @ str_exn e)),
           w1\<lparr>upload_closed := True, events := events w @ [FileWrite p] @ [UploadClose]\<rparr>)"
    by (simp add: upload_file_def save_upload_def Let_def emit_def p_def w1_def)
  then show ?thesis unfolding p_def by blast
qed


text \<open>
  C9. The extension check compares the end of the filename with \<open>.pdf\<close> as it is written:
  a filename that ends in \<open>.pdf\<close> only after its letters are put in lower case (such as
  \<open>Report.PDF\<close>) is answered with the HTTP error 400, and the world is left as it was.
\<close>

theorem upload_extension_case_sensitive:
  assumes "endswith (map ascii_lower (filename file)) ''.pdf''"
    and "\<not> endswith (filename file) ''.pdf''"
  shows "upload_file env file w
     = (Inl (HTTPException 400 ''Invalid file type. Only PDFs are allowed.''), w)"
  using assms(2) by (simp add: upload_file_def)

theorem upload_extension_case_sensitive_witness:
  "endswith (map ascii_lower (filename \<lparr>filename = ''Report.PDF'', content = [37, 80, 68, 70]\<rparr>)) ''.pdf''
   \<and> \<not> endswith (filename \<lparr>filename = ''Report.PDF'', content = [37, 80, 68, 70]\<rparr>) ''.pdf''
   \<and> upload_file (env_ok []) \<lparr>filename = ''Report.PDF'', content = [37, 80, 68, 70]\<rparr> world0
     = (Inl (HTTPException 400 ''Invalid file type. Only PDFs are allowed.''), world0)"
proof -
  have h1: "endswith (map ascii_lower (filename \<lparr>filename = ''Report.PDF'', content = [37, 80, 68, 70]\<rparr>)) ''.pdf''"
    by code_simp
  have h2: "\<not> endswith (filename \<lparr>filename = ''Report.PDF'', content = [37, 80, 68, 70]\<rparr>) ''.pdf''"
    by (simp add: endswith_def)
  from h1 h2 upload_extension_case_sensitive [OF h1 h2, of "env_ok []" world0] show ?thesis
    by simp
qed

text \<open>
  C10. For every upload that passes the filename check, the uploaded stream is closed when the
  handler returns, and it is closed before anything else than the write of the file happens:
  the events of the call are at most the \<open>FileWrite\<close> of the saved path, then
  \<open>UploadClose\<close>, then the events of the processing. When saving fails, the close is the
  last event and the handler raises the HTTP error 500 \<open>Could not save file: ...\<close>.
\<close>

theorem upload_stream_closed:
  assumes "endswith (filename file) ''.pdf''"
  shows "upload_closed (snd (upload_file env file w))
     \<and> (\<exists>pre post.
           events (snd (upload_file env file w)) = events w @ pre @ [UploadClose] @ post
           \<and> set pre \<subseteq> {FileWrite (os_path_join UPLOAD_FOLDER (filename file))}
           \<and> (save_outcome env (os_path_join UPLOAD_FOLDER (filename file)) (content file) \<noteq> Saved
                \<longrightarrow> post = []
                  \<and> (\<exists>detail. fst (upload_file env file w)
                        = Inl (HTTPException 500 (''Could not save file: '' @ detail)))))"
proof (cases "save_outcome env (os_path_join UPLOAD_FOLDER (filename file)) (content file) = Saved")
  case True
  from upload_file_saved_world [OF assms True, of w]
  obtain idx evs where w': "snd (upload_file env file w)
     = w\<lparr>files := (files w)(os_path_join UPLOAD_FOLDER (filename file) \<mapsto> content file),
          upload_closed := True, index := idx,
          events := events w @ [FileWrite (os_path_join UPLOAD_FOLDER (filename file)), UploadClose] @ evs\<rparr>"
    by blast
  have "events (snd (upload_file env file w))
      = events w @ [FileWrite (os_path_join UPLOAD_FOLDER (filename file))] @ [UploadClose] @ evs"
    by (simp add: w')
  moreover have "upload_closed (snd (upload_file env file w))" by (simp add: w')
  moreover have "set [FileWrite (os_path_join UPLOAD_FOLDER (filename file))]
      \<subseteq> {FileWrite (os_path_join UPLOAD_FOLDER (filename file))}" by simp
  ultimately show ?thesis using True by blast
next
  case False
  from upload_file_not_saved [OF assms False, of w]
  obtain e w1 pre where
    pre: "set pre \<subseteq> {FileWrite (os_path_join UPLOAD_FOLDER (filename file))}"
    and up: "upload_file env file w
        = (Inl (HTTPException 500 (''Could not save file: '' @ str_exn e)),
           w1\<lparr>upload_closed := True, events := events w @ pre @ [UploadClose]\<rparr>)"
    by blast
  have "events (snd (upload_file env file w)) = events w @ pre @ [UploadClose] @ []"
    by (simp add: up)
  moreover have "upload_closed (snd (upload_file env file w))" by (simp add: up)
  moreover have "\<exists>detail. fst (upload_file env file w)
                        = Inl (HTTPException 500 (''Could not save file: '' @ detail))"
    by (simp add: up)
  ultimately show ?thesis using pre by blast
qed

theorem upload_stream_closed_witness:
  "endswith (filename report_pdf) ''.pdf''
   \<and> upload_closed (snd (upload_file env_disk_full report_pdf world0))
   \<and> (\<exists>pre post.
           events (snd (upload_file env_disk_full report_pdf world0)) = events world0 @ pre @ [UploadClose] @ post
           \<and> set pre \<subseteq> {FileWrite (os_path_join UPLOAD_FOLDER (filename report_pdf))}
           \<and> (save_outcome env_disk_full (os_path_join UPLOAD_FOLDER (filename report_pdf)) (content report_pdf) \<noteq> Saved
                \<longrightarrow> post = []
                  \<and> (\<exists>detail. fst (upload_file env_disk_full report_pdf world0)
                        = Inl (HTTPException 500 (''Could not save file: '' @ detail)))))"
proof -
  have h: "endswith (filename report_pdf) ''.pdf''"
    by (simp add: report_pdf_def endswith_def)
  from h upload_stream_closed [OF h, of env_disk_full world0] show ?thesis by simp
qed

lemma disk_full_run:
  "upload_file env_disk_full report_pdf world0
   = (Inl (HTTPException 500 ''Could not save file: No space left on device''),
      \<lparr>files = [''temp_uploads/report.pdf'' \<mapsto> [37]], upload_closed = True, index = [],
       events = [FileWrite ''temp_uploads/report.pdf'', UploadClose]\<rparr>)"
  by (simp add: upload_file_def report_pdf_def endswith_def save_upload_def env_disk_full_def
      env_ok_def world0_def emit_def Let_def os_path_join_def UPLOAD_FOLDER_def startswith_def)


text \<open>
  C1, as stated, fails: the handler has no statement that removes the saved file. In each of
  the three exits after a successful save (success, a PDF that cannot be read, a vector store
  that raises) the file \<open>temp_uploads/report.pdf\<close> still holds the uploaded bytes when the
  handler returns.
\<close>

theorem temp_file_removed_counterexample:
  "(fst (upload_file (env_ok [Inr ''hello world'']) report_pdf world0)
      = Inr \<lparr>message = ''File successfully uploaded and processed.'',
              response_filename = ''report.pdf'', total_chunks = 1\<rparr>
    \<and> files (snd (upload_file (env_ok [Inr ''hello world'']) report_pdf world0))
          ''temp_uploads/report.pdf'' = Some [37, 80, 68, 70])
   \<and> (fst (upload_file env_bad_pdf report_pdf world0)
      = Inl (HTTPException 500 ''Failed to read PDF text: EOF marker not found'')
    \<and> files (snd (upload_file env_bad_pdf report_pdf world0))
          ''temp_uploads/report.pdf'' = Some [37, 80, 68, 70])
   \<and> (fst (upload_file (env_store_down [Inr ''hello world'']) report_pdf world0)
      = Inl (HTTPException 500 ''index not found'')
    \<and> files (snd (upload_file (env_store_down [Inr ''hello world'']) report_pdf world0))
          ''temp_uploads/report.pdf'' = Some [37, 80, 68, 70])"
proof -
  have a: "fst (upload_file (env_ok [Inr ''hello world'']) report_pdf world0)
      = Inr \<lparr>message = ''File successfully uploaded and processed.'',
              response_filename = ''report.pdf'', total_chunks = 1\<rparr>"
    by code_simp
  have a': "files (snd (upload_file (env_ok [Inr ''hello world'']) report_pdf world0))
          ''temp_uploads/report.pdf'' = Some [37, 80, 68, 70]"
    by code_simp
  have b: "fst (upload_file env_bad_pdf report_pdf world0)
      = Inl (HTTPException 500 ''Failed to read PDF text: EOF marker not found'')"
    by code_simp
  have b': "files (snd (upload_file env_bad_pdf report_pdf world0))
          ''temp_uploads/report.pdf'' = Some [37, 80, 68, 70]"
    by code_simp
  have c: "fst (upload_file (env_store_down [Inr ''hello world'']) report_pdf world0)
      = Inl (HTTPException 500 ''index not found'')"
    by code_simp
  have c': "files (snd (upload_file (env_store_down [Inr ''hello world'']) report_pdf world0))
          ''temp_uploads/report.pdf'' = Some [37, 80, 68, 70]"
    by code_simp
  from a a' b b' c c' show ?thesis by blast
qed

text \<open>
  C1, amended. For every upload that passes the filename check and whose bytes are saved, the
  saved file is still present with the uploaded bytes when the handler returns, on every exit:
  success, extraction failure, and embedding or store failure.
\<close>

theorem upload_keeps_saved_file:
  assumes "endswith (filename file) ''.pdf''"
    and "save_outcome env (os_path_join UPLOAD_FOLDER (filename file)) (content file) = Saved"
  shows "files (snd (upload_file env file w)) (os_path_join UPLOAD_FOLDER (filename file))
     = Some (content file)"
proof -
  from upload_file_saved_world [OF assms, of w]
  obtain idx evs where "snd (upload_file env file w)
     = w\<lparr>files := (files w)(os_path_join UPLOAD_FOLDER (filename file) \<mapsto> content file),
          upload_closed := True, index := idx,
          events := events w @ [FileWrite (os_path_join UPLOAD_FOLDER (filename file)), UploadClose] @ evs\<rparr>"
    by blast
  then show ?thesis by simp
qed

theorem upload_keeps_saved_file_witness:
  "endswith (filename report_pdf) ''.pdf''
   \<and> save_outcome (env_store_down [Inr ''hello world''])
        (os_path_join UPLOAD_FOLDER (filename report_pdf)) (content report_pdf) = Saved
   \<and> files (snd (upload_file (env_store_down [Inr ''hello world'']) report_pdf world0))
        (os_path_join UPLOAD_FOLDER (filename report_pdf)) = Some (content report_pdf)"
proof -
  have h1: "endswith (filename report_pdf) ''.pdf''"
    by (simp add: report_pdf_def endswith_def)
  have h2: "save_outcome (env_store_down [Inr ''hello world''])
        (os_path_join UPLOAD_FOLDER (filename report_pdf)) (content report_pdf) = Saved"
    by (simp add: env_store_down_def env_ok_def)
  from h1 h2 upload_keeps_saved_file [OF h1 h2, of world0] show ?thesis by simp
qed

text \<open>
  C6. For a path whose file exists and is read by PyPDF2 as the pages with the texts
  \<open>texts\<close>, \<open>extract_text_from_pdf\<close> returns, in page order, each non-empty text followed
  by a newline; a page with an empty text adds nothing.
\<close>

lemma pages_loop_texts:
  "pages_loop (map Inr texts) acc
     = Inr (acc @ concat (map (\<lambda>t. t @ [newline]) (filter (\<lambda>t. t \<noteq> []) texts)))"
  by (induction texts arbitrary: acc) simp_all

theorem extract_text_concatenates_pages:
  assumes "files w filepath = Some data"
    and "pdf_reader env data = Inr (map Inr texts)"
  shows "fst (extract_text_from_pdf env filepath w)
     = Inr (concat (map (\<lambda>t. t @ [newline]) (filter (\<lambda>t. t \<noteq> []) texts)))"
  using assms by (simp add: extract_text_from_pdf_def Let_def pages_loop_texts)

theorem extract_text_concatenates_pages_witness:
  "files (world0\<lparr>files := [''temp_uploads/report.pdf'' \<mapsto> [37, 80, 68, 70]]\<rparr>)
      ''temp_uploads/report.pdf'' = Some [37, 80, 68, 70]
   \<and> pdf_reader (env_ok (map Inr [''Page one'', [], ''Page three''])) [37, 80, 68, 70]
       = Inr (map Inr [''Page one'', [], ''Page three''])
   \<and> fst (extract_text_from_pdf (env_ok (map Inr [''Page one'', [], ''Page three'']))
            ''temp_uploads/report.pdf''
            (world0\<lparr>files := [''temp_uploads/report.pdf'' \<mapsto> [37, 80, 68, 70]]\<rparr>))
       = Inr (''Page one'' @ [newline] @ ''Page three'' @ [newline])"
proof -
  have h1: "files (world0\<lparr>files := [''temp_uploads/report.pdf'' \<mapsto> [37, 80, 68, 70]]\<rparr>)
      ''temp_uploads/report.pdf'' = Some [37, 80, 68, 70]"
    by simp
  have h2: "pdf_reader (env_ok (map Inr [''Page one'', [], ''Page three''])) [37, 80, 68, 70]
       = Inr (map Inr [''Page one'', [], ''Page three''])"
    by (simp add: env_ok_def)
  from h1 h2 extract_text_concatenates_pages [OF h1 h2] show ?thesis by simp
qed


lemma chunk_text_empty: "chunk_text [] = Inr []"
  by code_simp

lemma extract_text_result:
  assumes "files w filepath = Some data"
  shows "extract_text_from_pdf env filepath w
     = (case (case pdf_reader env data of Inl e \<Rightarrow> Inl e | Inr pages \<Rightarrow> pages_loop pages []) of
          Inl e \<Rightarrow> Inl (Exception (''Failed to read PDF text: '' @ str_exn e))
        | Inr text_content \<Rightarrow> Inr text_content,
        emit (FileRead filepath) w)"
  using assms by (simp add: extract_text_from_pdf_def Let_def split: sum.splits)

lemma upload_file_saved_result:
  assumes pdf: "endswith (filename file) ''.pdf''"
    and saved: "save_outcome env (os_path_join UPLOAD_FOLDER (filename file)) (content file) = Saved"
  shows "fst (upload_file env file w)
     = (case fst (upload_file_process env (os_path_join UPLOAD_FOLDER (filename file))
                   (w\<lparr>files := (files w)(os_path_join UPLOAD_FOLDER (filename file) \<mapsto> content file),
                      upload_closed := True,
                      events := events w @ [FileWrite (os_path_join UPLOAD_FOLDER (filename file)),
                                            UploadClose]\<rparr>)) of
          Inl e \<Rightarrow> Inl (HTTPException 500 (str_exn e))
        | Inr document_chunks \<Rightarrow>
            Inr \<lparr>message = ''File successfully uploaded and processed.'',
                 response_filename = filename file,
                 total_chunks = length document_chunks\<rparr>)"
  using pdf saved
  by (simp add: upload_file_def save_upload_def Let_def emit_def split: prod.splits sum.splits)


lemma upload_file_process_result:
  assumes "files w filepath = Some data"
    and "pdf_reader env data = Inr pages"
    and "pages_loop pages [] = Inr raw_text"
    and "chunk_text raw_text = Inr document_chunks"
    and "fst (from_documents env (index w) document_chunks) = None"
  shows "fst (upload_file_process env filepath w) = Inr document_chunks"
proof -
  have ex: "extract_text_from_pdf env filepath w = (Inr raw_text, emit (FileRead filepath) w)"
    using assms(1-3) by (simp add: extract_text_result)
  obtain idx where fd: "from_documents env (index w) document_chunks = (None, idx)"
    using assms(5) by (cases "from_documents env (index w) document_chunks") simp
  show ?thesis
    using ex assms(4) fd
    by (simp add: upload_file_process_def PineconeVectorStore_from_documents_def emit_def Let_def)
qed

text \<open>
  C7. Chunking the empty text gives the empty list of documents; and an upload whose extracted
  text is chunked into the empty list succeeds with \<open>total_chunks = 0\<close> (the upload is saved,
  the PDF is read, and the vector store takes the empty batch).
\<close>

theorem empty_chunks_upload_succeeds:
  assumes "endswith (filename file) ''.pdf''"
    and "save_outcome env (os_path_join UPLOAD_FOLDER (filename file)) (content file) = Saved"
    and "pdf_reader env (content file) = Inr pages"
    and "pages_loop pages [] = Inr raw_text"
    and "chunk_text raw_text = Inr []"
    and "fst (from_documents env (index w) []) = None"
  shows "chunk_text [] = Inr []
     \<and> fst (upload_file env file w)
        = Inr \<lparr>message = ''File successfully uploaded and processed.'',
                response_filename = filename file, total_chunks = 0\<rparr>"
proof -
  define filepath where "filepath = os_path_join UPLOAD_FOLDER (filename file)"
  define w2 where "w2 = w\<lparr>files := (files w)(filepath \<mapsto> content file), upload_closed := True,
                        events := events w @ [FileWrite filepath, UploadClose]\<rparr>"
  have f: "files w2 filepath = Some (content file)" by (simp add: w2_def)
  have i: "fst (from_documents env (index w2) []) = None" using assms(6) by (simp add: w2_def)
  have "fst (upload_file_process env filepath w2) = Inr []"
    using upload_file_process_result [OF f assms(3) assms(4) assms(5) i] .
  then have "fst (upload_file env file w)
        = Inr \<lparr>message = ''File successfully uploaded and processed.'',
                response_filename = filename file, total_chunks = 0\<rparr>"
    using upload_file_saved_result [OF assms(1) assms(2), of w]
    by (simp add: filepath_def w2_def)
  with chunk_text_empty show ?thesis by simp
qed

theorem empty_chunks_upload_succeeds_witness:
  "endswith (filename report_pdf) ''.pdf''
   \<and> save_outcome (env_ok [Inr []]) (os_path_join UPLOAD_FOLDER (filename report_pdf))
        (content report_pdf) = Saved
   \<and> pdf_reader (env_ok [Inr []]) (content report_pdf) = Inr [Inr []]
   \<and> pages_loop [Inr []] [] = Inr []
   \<and> chunk_text [] = Inr []
   \<and> fst (from_documents (env_ok [Inr []]) (index world0) []) = None
   \<and> fst (upload_file (env_ok [Inr []]) report_pdf world0)
        = Inr \<lparr>message = ''File successfully uploaded and processed.'',
                response_filename = filename report_pdf, total_chunks = 0\<rparr>"
proof -
  have h1: "endswith (filename report_pdf) ''.pdf''"
    by (simp add: report_pdf_def endswith_def)
  have h2: "save_outcome (env_ok [Inr []]) (os_path_join UPLOAD_FOLDER (filename report_pdf))
        (content report_pdf) = Saved"
    by (simp add: env_ok_def)
  have h3: "pdf_reader (env_ok [Inr []]) (content report_pdf) = Inr [Inr []]"
    by (simp add: env_ok_def)
  have h4: "pages_loop [Inr []] [] = Inr []" by simp
  have h5: "chunk_text [] = Inr []" by code_simp
  have h6: "fst (from_documents (env_ok [Inr []]) (index world0) []) = None"
    by (simp add: env_ok_def)
  from h1 h2 h3 h4 h5 h6 empty_chunks_upload_succeeds [OF h1 h2 h3 h4 h5 h6]
  show ?thesis by simp
qed


section \<open>The chunker on texts without white space\<close>

lemma dropWhile_none: "\<forall>x\<in>set xs. \<not> P x \<Longrightarrow> dropWhile P xs = xs"
  by (cases xs) auto

lemma strip_no_space: "\<forall>c\<in>set s. \<not> is_space c \<Longrightarrow> strip s = s"
  by (simp add: strip_def dropWhile_none)

lemma join_empty_separator: "join [] xs = concat xs"
  by (induction "[] :: string" xs rule: join.induct) simp_all

lemma concat_singles: "concat (map (\<lambda>c. [c]) xs) = xs"
  by (induction xs) simp_all

lemma join_docs_singles:
  assumes "\<forall>c\<in>set cur. \<not> is_space c"
  shows "join_docs (RecursiveCharacterTextSplitter 1000 200) (map (\<lambda>c. [c]) cur) []
     = (if cur = [] then None else Some cur)"
  using assms
  by (simp add: join_docs_def RecursiveCharacterTextSplitter_def join_empty_separator
      concat_singles strip_no_space)

lemma pop_front_singles:
  assumes "\<forall>c\<in>set cur. length c = 1" and "200 \<le> length cur"
  shows "pop_front (RecursiveCharacterTextSplitter 1000 200) 0 1 (int (length cur)) cur
     = Inr (200, drop (length cur - 200) cur)"
  using assms
proof (induction cur)
  case Nil
  then show ?case by simp
next
  case (Cons c cs)
  show ?case
  proof (cases "length (c # cs) = 200")
    case True
    then show ?thesis
      by (subst pop_front.simps) (simp add: RecursiveCharacterTextSplitter_def)
  next
    case False
    with Cons.prems have big: "200 \<le> length cs" by simp
    have c1: "length c = 1" using Cons.prems by simp
    have step: "pop_front (RecursiveCharacterTextSplitter 1000 200) 0 1 (int (length (c # cs))) (c # cs)
        = pop_front (RecursiveCharacterTextSplitter 1000 200) 0 1 (int (length cs)) cs"
      using False Cons.prems c1
      by (subst pop_front.simps) (simp add: RecursiveCharacterTextSplitter_def)
    have "pop_front (RecursiveCharacterTextSplitter 1000 200) 0 1 (int (length cs)) cs
        = Inr (200, drop (length cs - 200) cs)"
      using Cons.IH Cons.prems big by simp
    moreover have "drop (length (c # cs) - 200) (c # cs) = drop (length cs - 200) cs"
    proof -
      have "length (c # cs) - 200 = Suc (length cs - 200)" using big by simp
      then show ?thesis by (simp only: drop_Suc_Cons)
    qed
    ultimately show ?thesis using step by simp
  qed
qed

lemma merge_step_short:
  assumes "length cur < 1000"
  shows "merge_step (RecursiveCharacterTextSplitter 1000 200) [] [d]
           (docs, map (\<lambda>c. [c]) cur, int (length cur))
     = Inr (docs, map (\<lambda>c. [c]) (cur @ [d]), int (length (cur @ [d])))"
  using assms by (simp add: merge_step_def Let_def RecursiveCharacterTextSplitter_def)

lemma merge_step_full:
  assumes "length cur = 1000" and "\<forall>c\<in>set cur. \<not> is_space c"
  shows "merge_step (RecursiveCharacterTextSplitter 1000 200) [] [d]
           (docs, map (\<lambda>c. [c]) cur, int (length cur))
     = Inr (docs @ [cur], map (\<lambda>c. [c]) (drop 800 cur @ [d]), int (length (drop 800 cur @ [d])))"
proof -
  have ne: "cur \<noteq> []" using assms(1) by auto
  have jd: "join_docs (RecursiveCharacterTextSplitter 1000 200) (map (\<lambda>c. [c]) cur) [] = Some cur"
    using join_docs_singles [OF assms(2)] ne by simp
  have "pop_front (RecursiveCharacterTextSplitter 1000 200) 0 1
          (int (length (map (\<lambda>c. [c]) cur))) (map (\<lambda>c. [c]) cur)
      = Inr (200, drop (length (map (\<lambda>c. [c]) cur) - 200) (map (\<lambda>c. [c]) cur))"
    by (rule pop_front_singles) (simp_all add: assms(1))
  then have pf: "pop_front (RecursiveCharacterTextSplitter 1000 200) 0 1 1000 (map (\<lambda>c. [c]) cur)
      = Inr (200, map (\<lambda>c. [c]) (drop 800 cur))"
    by (simp add: assms(1) drop_map)
  have cs: "chunk_size (RecursiveCharacterTextSplitter 1000 200) = 1000"
    by (simp add: RecursiveCharacterTextSplitter_def)
  show ?thesis
    using ne by (simp add: merge_step_def Let_def cs jd pf assms(1))
qed


lemma windows_short: "length xs \<le> n \<Longrightarrow> windows n step xs = [xs]"
  by (subst windows.simps) simp

lemma windows_long:
  "n < length xs \<Longrightarrow> 0 < step \<Longrightarrow> windows n step xs = take n xs # windows n step (drop step xs)"
  by (subst windows.simps) simp

lemma merge_loop_singles:
  assumes "length cur \<le> 1000" and "\<forall>c\<in>set (cur @ r). \<not> is_space c"
  shows "merge_loop (RecursiveCharacterTextSplitter 1000 200) [] (map (\<lambda>c. [c]) r)
           (docs, map (\<lambda>c. [c]) cur, int (length cur))
     = Inr (docs @ (if cur @ r = [] then [] else windows 1000 800 (cur @ r)))"
  using assms
proof (induction r arbitrary: docs cur)
  case Nil
  then have "join_docs (RecursiveCharacterTextSplitter 1000 200) (map (\<lambda>c. [c]) cur) []
     = (if cur = [] then None else Some cur)"
    by (simp add: join_docs_singles)
  with Nil.prems(1) show ?case by (simp add: windows_short)
next
  case (Cons d r)
  show ?case
  proof (cases "length cur < 1000")
    case True
    have ih: "merge_loop (RecursiveCharacterTextSplitter 1000 200) [] (map (\<lambda>c. [c]) r)
           (docs, map (\<lambda>c. [c]) (cur @ [d]), int (length (cur @ [d])))
       = Inr (docs @ (if (cur @ [d]) @ r = [] then [] else windows 1000 800 ((cur @ [d]) @ r)))"
      using True Cons.prems by (intro Cons.IH) auto
    show ?thesis
      using merge_step_short [OF True, of d docs] ih by simp
  next
    case False
    with Cons.prems have full: "length cur = 1000" by simp
    have ns: "\<forall>c\<in>set cur. \<not> is_space c" using Cons.prems by simp
    have ih: "merge_loop (RecursiveCharacterTextSplitter 1000 200) [] (map (\<lambda>c. [c]) r)
           (docs @ [cur], map (\<lambda>c. [c]) (drop 800 cur @ [d]), int (length (drop 800 cur @ [d])))
       = Inr ((docs @ [cur]) @ (if (drop 800 cur @ [d]) @ r = [] then []
                                else windows 1000 800 ((drop 800 cur @ [d]) @ r)))"
    proof (intro Cons.IH)
      show "length (drop 800 cur @ [d]) \<le> 1000" using full by simp
      show "\<forall>c\<in>set ((drop 800 cur @ [d]) @ r). \<not> is_space c"
        using Cons.prems(2) by (auto dest: in_set_dropD)
    qed
    have w: "windows 1000 800 (cur @ d # r) = cur # windows 1000 800 (drop 800 cur @ d # r)"
      using full by (subst windows_long) simp_all
    show ?thesis
      using merge_step_full [OF full ns, of d docs] ih w by simp
  qed
qed

lemma merge_splits_singles:
  assumes "\<forall>c\<in>set t. \<not> is_space c"
  shows "merge_splits (RecursiveCharacterTextSplitter 1000 200) (map (\<lambda>c. [c]) t) []
     = Inr (if t = [] then [] else windows 1000 800 t)"
  using merge_loop_singles [of "[]" t "[]"] assms by (simp add: merge_splits_def)

lemma split_loop_all_short:
  assumes "\<forall>s\<in>set ss. int (length s) < chunk_size sp"
  shows "split_loop sp new_separators msep ss good final
     = (if good @ ss \<noteq> [] then
          (case merge_splits sp (good @ ss) msep of
             Inl e \<Rightarrow> Inl e
           | Inr merged_text \<Rightarrow> Inr (final @ merged_text))
        else Inr final)"
  using assms by (induction ss arbitrary: good) simp_all

lemma find_first_occurs:
  "find_first sep t = Some i \<Longrightarrow> set sep \<subseteq> set t"
proof (induction t arbitrary: i)
  case Nil
  then show ?case by (simp split: if_splits)
next
  case (Cons c cs)
  show ?case
  proof (cases "startswith (c # cs) sep")
    case True
    then have "sep = take (length sep) (c # cs)" by (simp add: startswith_def)
    then have "set sep \<subseteq> set (c # cs)" by (metis set_take_subset)
    then show ?thesis .
  next
    case False
    with Cons.prems obtain j where "find_first sep cs = Some j" by auto
    then have "set sep \<subseteq> set cs" by (rule Cons.IH)
    then show ?thesis by auto
  qed
qed

lemma find_first_absent:
  assumes "c \<in> set sep" and "c \<notin> set t"
  shows "find_first sep t = None"
proof (cases "find_first sep t")
  case None
  then show ?thesis .
next
  case (Some i)
  then have "set sep \<subseteq> set t" by (rule find_first_occurs)
  with assms show ?thesis by auto
qed

lemma is_space_newline: "is_space (CHR 0x0A)"
  by (simp add: is_space_def)

lemma is_space_blank: "is_space CHR '' ''"
  by (simp add: is_space_def)

lemma split_text_rec_no_space:
  assumes "\<forall>c\<in>set t. \<not> is_space c"
    and "seps \<noteq> []" and "[] \<in> set seps"
    and "\<forall>s\<in>set seps. s = [] \<or> (\<exists>c\<in>set s. is_space c)"
  shows "split_text_rec (RecursiveCharacterTextSplitter 1000 200) t seps
     = Inr (if t = [] then [] else windows 1000 800 t)"
proof -
  have ch: "choose_separator seps t = Some ([], [])"
    using assms(3,4)
  proof (induction seps)
    case Nil
    then show ?case by simp
  next
    case (Cons s rest)
    show ?case
    proof (cases "s = []")
      case True
      then show ?thesis by simp
    next
      case False
      with Cons.prems obtain c where "c \<in> set s" and "is_space c" by auto
      with assms(1) have "find_first s t = None" by (intro find_first_absent [of c]) auto
      moreover have "[] \<in> set rest" using Cons.prems False by auto
      ultimately show ?thesis using False Cons by simp
    qed
  qed
  have short: "\<forall>s\<in>set (map (\<lambda>c. [c]) t). int (length s) < chunk_size (RecursiveCharacterTextSplitter 1000 200)"
    by (simp add: RecursiveCharacterTextSplitter_def)
  have ks: "keep_separator (RecursiveCharacterTextSplitter 1000 200)"
    by (simp add: RecursiveCharacterTextSplitter_def)
  have sp: "split_text_with_regex t [] True = map (\<lambda>c. [c]) t"
    by (simp add: split_text_with_regex_def)
  have "split_text_rec (RecursiveCharacterTextSplitter 1000 200) t seps
      = split_loop (RecursiveCharacterTextSplitter 1000 200) [] [] (map (\<lambda>c. [c]) t) [] []"
    using assms(2) by (subst split_text_rec.simps) (simp add: ch ks sp)
  also have "\<dots> = Inr (if t = [] then [] else windows 1000 800 t)"
    by (simp add: split_loop_all_short [OF short] merge_splits_singles [OF assms(1)])
  finally show ?thesis .
qed

lemma create_documents_one:
  "create_documents sp [t]
     = (case split_text sp t of
          Inl e \<Rightarrow> Inl e
        | Inr chunks \<Rightarrow> Inr (map (\<lambda>chunk. \<lparr>page_content = chunk, metadata = []\<rparr>) chunks))"
  by (simp add: create_documents_def split: sum.splits)

lemma chunk_text_no_space:
  assumes "\<forall>c\<in>set t. \<not> is_space c"
  shows "chunk_text t
     = Inr (map (\<lambda>chunk. \<lparr>page_content = chunk, metadata = []\<rparr>)
              (if t = [] then [] else windows 1000 800 t))"
proof -
  have "split_text (RecursiveCharacterTextSplitter 1000 200) t
      = Inr (if t = [] then [] else windows 1000 800 t)"
    unfolding split_text_def
    by (subst RecursiveCharacterTextSplitter_def, simp only: splitter.simps,
        rule split_text_rec_no_space [OF assms])
       (auto simp: is_space_def)
  then show ?thesis
    by (simp add: chunk_text_def Let_def create_documents_one)
qed


lemma windows_drop_overlap:
  "200 \<le> length u \<longrightarrow> concat (map (drop 200) (windows 1000 800 u)) = drop 200 u"
proof (induction u rule: length_induct)
  case (1 xs)
  show ?case
  proof (cases "length xs \<le> 1000")
    case True
    then show ?thesis by (simp add: windows_short)
  next
    case False
    then have long: "1000 < length xs" by simp
    have ih: "concat (map (drop 200) (windows 1000 800 (drop 800 xs))) = drop 200 (drop 800 xs)"
      using long "1.IH" by simp
    have "drop 200 xs = drop 200 (take 1000 xs @ drop 1000 xs)" by simp
    also have "\<dots> = drop 200 (take 1000 xs) @ drop 1000 xs"
      using long by (simp only: drop_append) simp
    finally have split: "drop 200 xs = drop 200 (take 1000 xs) @ drop 1000 xs" .
    show ?thesis
      using long ih split by (simp add: windows_long)
  qed
qed

lemma windows_reassemble: "drop_overlap_concat 200 (windows 1000 800 t) = t"
proof (cases "length t \<le> 1000")
  case True
  then show ?thesis by (simp add: windows_short)
next
  case False
  then have long: "1000 < length t" by simp
  have "concat (map (drop 200) (windows 1000 800 (drop 800 t))) = drop 200 (drop 800 t)"
    using long windows_drop_overlap [of "drop 800 t"] by simp
  then show ?thesis using long by (simp add: windows_long)
qed

lemma find_first_bound:
  "find_first sep t = Some i \<Longrightarrow> i + length sep \<le> length t \<and> take (length sep) (drop i t) = sep"
proof (induction t arbitrary: i)
  case Nil
  then show ?case by (simp split: if_splits)
next
  case (Cons c cs)
  show ?case
  proof (cases "startswith (c # cs) sep")
    case True
    with Cons.prems have i0: "i = 0" by simp
    from True have eq: "take (length sep) (c # cs) = sep" by (simp add: startswith_def)
    have "length (take (length sep) (c # cs)) = length sep" by (simp only: eq)
    then have "length sep \<le> length (c # cs)" by simp
    with i0 eq show ?thesis by simp
  next
    case False
    with Cons.prems obtain j where j: "find_first sep cs = Some j" and i: "i = Suc j" by auto
    from Cons.IH [OF j] i show ?thesis by simp
  qed
qed

lemma find_first_double_newline:
  assumes "\<forall>c\<in>set t. \<not> is_space c"
  shows "find_first [CHR 0x0A, CHR 0x0A] (t @ [CHR 0x0A]) = None"
proof -
  define x where "x = t @ [CHR 0x0A]"
  have lx: "length x = Suc (length t)" by (simp add: x_def)
  have "find_first [CHR 0x0A, CHR 0x0A] x = None"
  proof (cases "find_first [CHR 0x0A, CHR 0x0A] x")
    case None
    then show ?thesis .
  next
    case (Some i)
    from find_first_bound [OF Some]
    have b: "i + length [CHR 0x0A, CHR 0x0A] \<le> length x"
      and tk: "take (length [CHR 0x0A, CHR 0x0A]) (drop i x) = [CHR 0x0A, CHR 0x0A]"
      by blast+
    from b lx have lt: "i < length t" by simp
    have "t ! i = x ! i" using lt by (simp add: x_def nth_append)
    also have "\<dots> = drop i x ! 0" using lt lx by simp
    also have "\<dots> = take (length [CHR 0x0A, CHR 0x0A]) (drop i x) ! 0" by simp
    also have "\<dots> = [CHR 0x0A, CHR 0x0A] ! 0" by (simp only: tk)
    finally have "t ! i = CHR 0x0A" by simp
    moreover have "t ! i \<in> set t" using lt by simp
    ultimately show ?thesis using assms is_space_newline by metis
  qed
  then show ?thesis by (simp only: x_def)
qed

lemma find_first_last_char:
  "c \<notin> set t \<Longrightarrow> find_first [c] (t @ [c]) = Some (length t)"
  by (induction t) (auto simp: startswith_def)

lemma re_split_trailing_newline:
  assumes "\<forall>c\<in>set t. \<not> is_space c"
  shows "re_split [CHR 0x0A] (t @ [CHR 0x0A]) = [t, []]"
proof -
  have nin: "CHR 0x0A \<notin> set t" using assms is_space_newline by auto
  have "re_split [CHR 0x0A] [] = [[]]"
    by (subst re_split.simps) simp
  then show ?thesis
    by (subst re_split.simps) (simp add: find_first_last_char [OF nin])
qed

lemma strip_trailing_newline:
  assumes "\<forall>c\<in>set t. \<not> is_space c"
  shows "strip (t @ [CHR 0x0A]) = t"
proof (cases t)
  case Nil
  then show ?thesis by (simp add: strip_def is_space_newline)
next
  case (Cons x xs)
  then have "dropWhile is_space (t @ [CHR 0x0A]) = t @ [CHR 0x0A]"
    using assms by simp
  moreover have "dropWhile is_space (rev t) = rev t"
    using assms by (intro dropWhile_none) simp
  ultimately show ?thesis by (simp add: strip_def is_space_newline)
qed

lemma merge_splits_text_newline:
  assumes "\<forall>c\<in>set t. \<not> is_space c" and "t \<noteq> []" and "length t < 1000"
  shows "merge_splits (RecursiveCharacterTextSplitter 1000 200) [t, [CHR 0x0A]] [] = Inr [t]"
  using assms
  by (simp add: merge_splits_def merge_step_def Let_def join_docs_def
      RecursiveCharacterTextSplitter_def strip_trailing_newline)

lemma merge_splits_newline:
  "merge_splits (RecursiveCharacterTextSplitter 1000 200) [[CHR 0x0A]] [] = Inr []"
  by (simp add: merge_splits_def merge_step_def Let_def join_docs_def
      RecursiveCharacterTextSplitter_def strip_def is_space_newline)

lemma split_text_rec_trailing_newline:
  assumes ns: "\<forall>c\<in>set t. \<not> is_space c" and ne: "t \<noteq> []"
  shows "split_text_rec (RecursiveCharacterTextSplitter 1000 200) (t @ [CHR 0x0A])
           [[CHR 0x0A, CHR 0x0A], [CHR 0x0A], '' '', []]
     = Inr (windows 1000 800 t)"
proof -
  have nin: "CHR 0x0A \<notin> set t" using ns is_space_newline by auto
  have ch: "choose_separator [[CHR 0x0A, CHR 0x0A], [CHR 0x0A], '' '', []] (t @ [CHR 0x0A])
      = Some ([CHR 0x0A], ['' '', []])"
    by (simp add: find_first_double_newline [OF ns] find_first_last_char [OF nin])
  have sp: "split_text_with_regex (t @ [CHR 0x0A]) [CHR 0x0A] True = [t, [CHR 0x0A]]"
    using ne by (simp add: split_text_with_regex_def re_split_trailing_newline [OF ns])
  have ks: "keep_separator (RecursiveCharacterTextSplitter 1000 200)"
    by (simp add: RecursiveCharacterTextSplitter_def)
  have cs: "chunk_size (RecursiveCharacterTextSplitter 1000 200) = 1000"
    by (simp add: RecursiveCharacterTextSplitter_def)
  have start: "split_text_rec (RecursiveCharacterTextSplitter 1000 200) (t @ [CHR 0x0A])
           [[CHR 0x0A, CHR 0x0A], [CHR 0x0A], '' '', []]
      = split_loop (RecursiveCharacterTextSplitter 1000 200) ['' '', []] [] [t, [CHR 0x0A]] [] []"
    by (subst split_text_rec.simps) (simp add: ch ks sp del: choose_separator.simps)
  show ?thesis
  proof (cases "length t < 1000")
    case True
    then have "split_loop (RecursiveCharacterTextSplitter 1000 200) ['' '', []] [] [t, [CHR 0x0A]] [] []
        = Inr [t]"
      by (simp add: cs merge_splits_text_newline [OF ns ne True])
    moreover have "windows 1000 800 t = [t]" using True by (simp add: windows_short)
    ultimately show ?thesis using start by simp
  next
    case False
    have rec: "split_text_rec (RecursiveCharacterTextSplitter 1000 200) t ['' '', []]
        = Inr (windows 1000 800 t)"
      using split_text_rec_no_space [OF ns, of "['' '', []]"] ne is_space_blank by simp
    have "split_loop (RecursiveCharacterTextSplitter 1000 200) ['' '', []] [] [t, [CHR 0x0A]] [] []
        = Inr (windows 1000 800 t)"
      using False by (simp add: cs rec merge_splits_newline)
    with start show ?thesis by simp
  qed
qed

lemma chunk_text_trailing_newline:
  assumes "\<forall>c\<in>set t. \<not> is_space c" and "t \<noteq> []"
  shows "chunk_text (t @ [newline])
     = Inr (map (\<lambda>chunk. \<lparr>page_content = chunk, metadata = []\<rparr>) (windows 1000 800 t))"
proof -
  have "split_text (RecursiveCharacterTextSplitter 1000 200) (t @ [CHR 0x0A])
      = Inr (windows 1000 800 t)"
    using split_text_rec_trailing_newline [OF assms]
    by (simp add: split_text_def RecursiveCharacterTextSplitter_def)
  then show ?thesis
    by (simp add: chunk_text_def Let_def create_documents_one newline_def)
qed


lemma windows_six:
  assumes "4200 < length t" and "length t \<le> 5000"
  shows "windows 1000 800 t
     = [take 1000 t, take 1000 (drop 800 t), take 1000 (drop 1600 t), take 1000 (drop 2400 t),
        take 1000 (drop 3200 t), drop 4000 t]"
proof -
  have "windows 1000 800 t = take 1000 t # windows 1000 800 (drop 800 t)"
    using assms by (intro windows_long) simp_all
  also have "windows 1000 800 (drop 800 t)
      = take 1000 (drop 800 t) # windows 1000 800 (drop 1600 t)"
    using assms by (subst windows_long) simp_all
  also have "windows 1000 800 (drop 1600 t)
      = take 1000 (drop 1600 t) # windows 1000 800 (drop 2400 t)"
    using assms by (subst windows_long) simp_all
  also have "windows 1000 800 (drop 2400 t)
      = take 1000 (drop 2400 t) # windows 1000 800 (drop 3200 t)"
    using assms by (subst windows_long) simp_all
  also have "windows 1000 800 (drop 3200 t)
      = take 1000 (drop 3200 t) # windows 1000 800 (drop 4000 t)"
    using assms by (subst windows_long) simp_all
  also have "windows 1000 800 (drop 4000 t) = [drop 4000 t]"
    using assms by (intro windows_short) simp
  finally show ?thesis .
qed

lemma windows_six_overlap:
  assumes "4200 < length t" and "length t \<le> 5000" and "i < 5"
  shows "drop (length (windows 1000 800 t ! i) - 200) (windows 1000 800 t ! i)
       = take 200 (windows 1000 800 t ! Suc i)
     \<and> length (take 200 (windows 1000 800 t ! Suc i)) = 200"
proof -
  from assms(3) consider "i = 0" | "i = 1" | "i = 2" | "i = 3" | "i = 4" by linarith
  then show ?thesis
  proof cases
    case 1
    then show ?thesis using assms(1,2)
      by (auto simp add: windows_six [OF assms(1,2)] drop_take min_def)
  next
    case 2
    then show ?thesis using assms(1,2)
      by (auto simp add: windows_six [OF assms(1,2)] drop_take min_def)
  next
    case 3
    then show ?thesis using assms(1,2)
      by (auto simp add: windows_six [OF assms(1,2)] drop_take min_def)
  next
    case 4
    then show ?thesis using assms(1,2)
      by (auto simp add: windows_six [OF assms(1,2)] drop_take min_def)
  next
    case 5
    then show ?thesis using assms(1,2)
      by (auto simp add: windows_six [OF assms(1,2)] drop_take min_def)
  qed
qed

lemma pages_loop_one_page: "t \<noteq> [] \<Longrightarrow> pages_loop [Inr t] [] = Inr (t @ [newline])"
  by simp

lemma upload_single_page_chunks:
  assumes pdf: "endswith (filename file) ''.pdf''"
    and saved: "save_outcome env (os_path_join UPLOAD_FOLDER (filename file)) (content file) = Saved"
    and reader: "pdf_reader env (content file) = Inr [Inr t]"
    and ns: "\<forall>c\<in>set t. \<not> is_space c" and ne: "t \<noteq> []"
    and store: "\<forall>batch. fst (from_documents env (index w) batch) = None"
  shows "fst (upload_file env file w)
     = Inr \<lparr>message = ''File successfully uploaded and processed.'',
             response_filename = filename file,
             total_chunks = length (windows 1000 800 t)\<rparr>"
proof -
  define filepath where "filepath = os_path_join UPLOAD_FOLDER (filename file)"
  define w2 where "w2 = w\<lparr>files := (files w)(filepath \<mapsto> content file), upload_closed := True,
                        events := events w @ [FileWrite filepath, UploadClose]\<rparr>"
  define docs where
    "docs = map (\<lambda>chunk. \<lparr>page_content = chunk, metadata = []\<rparr>) (windows 1000 800 t)"
  have f: "files w2 filepath = Some (content file)" by (simp add: w2_def)
  have i: "fst (from_documents env (index w2) docs) = None" using store by (simp add: w2_def)
  have c: "chunk_text (t @ [newline]) = Inr docs"
    using chunk_text_trailing_newline [OF ns ne] by (simp add: docs_def)
  have "fst (upload_file_process env filepath w2) = Inr docs"
    using upload_file_process_result [OF f reader pages_loop_one_page [OF ne] c i] .
  then show ?thesis
    using upload_file_saved_result [OF pdf saved, of w]
    by (simp add: filepath_def w2_def docs_def)
qed

lemma no_space_a: "\<forall>c\<in>set (replicate n (CHR ''a'')). \<not> is_space c"
  by (simp add: is_space_def)


section \<open>The chunker on short texts and on texts cut at a blank\<close>

text \<open>
  The pieces that \<open>_split_text_with_regex\<close> returns, put together, are the text. A text
  shorter than the chunk size is therefore merged into one chunk, which is the text without the
  white space at its two ends (and no chunk when nothing is left).
\<close>

lemma concat_filter_nonempty: "concat (filter (\<lambda>s. s \<noteq> []) xs) = concat xs"
  by (induction xs) simp_all

lemma re_split_concat:
  "sep \<noteq> [] \<Longrightarrow> \<exists>t0 ts. re_split sep t = t0 # ts \<and> t0 @ concat (map (\<lambda>x. sep @ x) ts) = t"
proof (induction sep t rule: re_split.induct)
  case (1 sep t)
  show ?case
  proof (cases "find_first sep t")
    case None
    with 1(2) show ?thesis by (subst re_split.simps) simp
  next
    case (Some i)
    from 1(1) [OF 1(2) Some] 1(2) obtain u0 us where
      u: "re_split sep (drop (i + length sep) t) = u0 # us"
      and c: "u0 @ concat (map (\<lambda>x. sep @ x) us) = drop (i + length sep) t"
      by blast
    from find_first_bound [OF Some] have s: "take (length sep) (drop i t) = sep" by simp
    have a: "take (length sep) (drop i t) @ drop (length sep) (drop i t) = drop i t"
      by (rule append_take_drop_id)
    have b: "drop (length sep) (drop i t) = drop (i + length sep) t"
      by (simp add: add.commute)
    from a have "sep @ drop (i + length sep) t = drop i t"
      by (simp only: s b)
    then have t: "take i t @ sep @ drop (i + length sep) t = t" by simp
    have "re_split sep t = take i t # u0 # us"
      using 1(2) Some u by (subst re_split.simps) simp
    moreover have "take i t @ concat (map (\<lambda>x. sep @ x) (u0 # us)) = t"
      using c t by simp
    ultimately show ?thesis by blast
  qed
qed

lemma split_text_with_regex_concat: "concat (split_text_with_regex t sep True) = t"
proof (cases "sep = []")
  case True
  have "filter (\<lambda>s. s \<noteq> []) (map (\<lambda>c. [c]) t) = map (\<lambda>c. [c]) t"
    by (induction t) simp_all
  with True show ?thesis by (simp add: split_text_with_regex_def concat_singles)
next
  case False
  from re_split_concat [OF False, of t] obtain t0 ts where
    "re_split sep t = t0 # ts" and "t0 @ concat (map (\<lambda>x. sep @ x) ts) = t"
    by blast
  with False show ?thesis
    by (simp add: split_text_with_regex_def concat_filter_nonempty del: filter.simps)
qed

lemma length_le_concat: "x \<in> set xs \<Longrightarrow> length x \<le> length (concat xs)"
  by (induction xs) auto

lemma merge_loop_fits:
  assumes "length (concat cur) + length (concat ds) \<le> 1000"
  shows "merge_loop (RecursiveCharacterTextSplitter 1000 200) [] ds
           (docs, cur, int (length (concat cur)))
       = Inr (docs @ (case join_docs (RecursiveCharacterTextSplitter 1000 200) (cur @ ds) [] of
                        None \<Rightarrow> [] | Some doc \<Rightarrow> [doc]))"
  using assms
proof (induction ds arbitrary: cur)
  case Nil
  then show ?case by simp
next
  case (Cons d ds)
  have step: "merge_step (RecursiveCharacterTextSplitter 1000 200) [] d
                (docs, cur, int (length (concat cur)))
            = Inr (docs, cur @ [d], int (length (concat (cur @ [d]))))"
    using Cons.prems by (simp add: merge_step_def Let_def RecursiveCharacterTextSplitter_def)
  have "length (concat (cur @ [d])) + length (concat ds) \<le> 1000"
    using Cons.prems by simp
  from Cons.IH [OF this] step show ?case by simp
qed

lemma split_loop_short_text:
  assumes "length t < 1000"
  shows "split_loop (RecursiveCharacterTextSplitter 1000 200) ns []
           (split_text_with_regex t s True) [] []
       = Inr (if strip t = [] then [] else [strip t])"
proof -
  let ?sp = "RecursiveCharacterTextSplitter 1000 200"
  let ?ss = "split_text_with_regex t s True"
  have c: "concat ?ss = t" by (rule split_text_with_regex_concat)
  have short: "\<forall>x\<in>set ?ss. int (length x) < chunk_size ?sp"
  proof
    fix x assume "x \<in> set ?ss"
    then have "length x \<le> length (concat ?ss)" by (rule length_le_concat)
    with c assms show "int (length x) < chunk_size ?sp"
      by (simp add: RecursiveCharacterTextSplitter_def)
  qed
  have m: "merge_splits ?sp ?ss [] = Inr (if strip t = [] then [] else [strip t])"
    using merge_loop_fits [of "[]" ?ss "[]"] c assms
    by (simp add: merge_splits_def join_docs_def join_empty_separator
        RecursiveCharacterTextSplitter_def Let_def)
  show ?thesis
  proof (cases "?ss = []")
    case True
    with c have "t = []" by simp
    then have "strip t = []" by (simp add: strip_def)
    with True split_loop_all_short [OF short, of ns "[]" "[]" "[]"] show ?thesis by simp
  next
    case False
    with split_loop_all_short [OF short, of ns "[]" "[]" "[]"] m show ?thesis by simp
  qed
qed

lemma split_text_rec_short:
  assumes "length t < 1000"
  shows "split_text_rec (RecursiveCharacterTextSplitter 1000 200) t
           (separators (RecursiveCharacterTextSplitter 1000 200))
       = Inr (if strip t = [] then [] else [strip t])"
proof -
  let ?sp = "RecursiveCharacterTextSplitter 1000 200"
  obtain a b where ch:
    "(case choose_separator (separators ?sp) t of
        None \<Rightarrow> (last (separators ?sp), []) | Some chosen \<Rightarrow> chosen) = (a, b)"
    by (cases "case choose_separator (separators ?sp) t of
        None \<Rightarrow> (last (separators ?sp), []) | Some chosen \<Rightarrow> chosen")
  have ks: "keep_separator ?sp = True" and ne: "separators ?sp \<noteq> []"
    by (simp_all add: RecursiveCharacterTextSplitter_def)
  show ?thesis
    by (subst split_text_rec.simps)
       (simp only: ne ch ks if_False if_True prod.case split_loop_short_text [OF assms])
qed

lemma chunk_text_short:
  assumes "length t < 1000"
  shows "chunk_text t
     = Inr (if strip t = [] then [] else [\<lparr>page_content = strip t, metadata = []\<rparr>])"
  using split_text_rec_short [OF assms]
  by (simp add: chunk_text_def Let_def create_documents_one split_text_def)

text \<open>
  Two words without white space, separated by one blank and followed by a newline, that do not
  fit into one chunk together: the first word is longer than the overlap, so nothing of it is
  kept for the second chunk, and the chunks are the two words.
\<close>

lemma find_first_no_double:
  assumes "c \<notin> set t"
  shows "find_first [c, c] (t @ [c]) = None"
proof -
  define x where "x = t @ [c]"
  have lx: "length x = Suc (length t)" by (simp add: x_def)
  have "find_first [c, c] x = None"
  proof (cases "find_first [c, c] x")
    case None
    then show ?thesis .
  next
    case (Some i)
    from find_first_bound [OF Some]
    have b: "i + length [c, c] \<le> length x"
      and tk: "take (length [c, c]) (drop i x) = [c, c]"
      by blast+
    from b lx have lt: "i < length t" by simp
    have "t ! i = x ! i" using lt by (simp add: x_def nth_append)
    also have "\<dots> = drop i x ! 0" using lt lx by simp
    also have "\<dots> = take (length [c, c]) (drop i x) ! 0" by simp
    also have "\<dots> = [c, c] ! 0" by (simp only: tk)
    finally have "t ! i = c" by simp
    moreover have "t ! i \<in> set t" using lt by simp
    ultimately show ?thesis using assms by metis
  qed
  then show ?thesis by (simp only: x_def)
qed

lemma find_first_middle:
  "c \<notin> set u \<Longrightarrow> find_first [c] (u @ c # v) = Some (length u)"
  by (induction u) (auto simp: startswith_def)

lemma re_split_once:
  assumes "c \<notin> set u" and "c \<notin> set v"
  shows "re_split [c] (u @ c # v) = [u, v]"
proof -
  have "find_first [c] v = None" using assms(2) by (intro find_first_absent [of c]) simp_all
  then have "re_split [c] v = [v]" by (subst re_split.simps) simp
  then show ?thesis
    by (subst re_split.simps) (simp add: find_first_middle [OF assms(1)])
qed

lemma strip_leading_blank:
  assumes "\<forall>c\<in>set v. \<not> is_space c"
  shows "strip (CHR '' '' # v) = v"
  using assms by (simp add: strip_def is_space_blank dropWhile_none)

lemma merge_splits_two_words:
  assumes nu: "\<forall>c\<in>set u. \<not> is_space c" and nv: "\<forall>c\<in>set v. \<not> is_space c"
    and lu: "200 < length u" and lv: "v \<noteq> []" and big: "1000 \<le> length u + length v"
  shows "merge_splits (RecursiveCharacterTextSplitter 1000 200) [u, CHR '' '' # v] [] = Inr [u, v]"
proof -
  let ?sp = "RecursiveCharacterTextSplitter 1000 200"
  have ne: "u \<noteq> []" using lu by auto
  have cs: "chunk_size ?sp = 1000" and co: "chunk_overlap ?sp = 200"
    by (simp_all add: RecursiveCharacterTextSplitter_def)
  have p0: "pop_front ?sp 0 len 0 [] = Inr (0, [])" for len
    by (subst pop_front.simps) (simp add: co)
  have p1: "pop_front ?sp 0 len (int (length u)) [u] = Inr (0, [])" for len
    using lu by (subst pop_front.simps) (simp add: co p0)
  have s1: "merge_step ?sp [] u ([], [], 0) = Inr ([], [u], int (length u))"
    by (simp add: merge_step_def Let_def)
  have s2: "merge_step ?sp [] (CHR '' '' # v) ([], [u], int (length u))
      = Inr ([u], [CHR '' '' # v], int (length (CHR '' '' # v)))"
    using big ne
    by (simp add: merge_step_def Let_def p1 join_docs_def strip_no_space [OF nu])
       (simp add: RecursiveCharacterTextSplitter_def)
  have j: "join_docs ?sp [CHR '' '' # v] [] = Some v"
    using lv by (simp add: join_docs_def Let_def RecursiveCharacterTextSplitter_def
        strip_leading_blank [OF nv])
  show ?thesis
    by (simp add: merge_splits_def s1 s2 j)
qed

lemma split_text_rec_two_words:
  assumes nu: "\<forall>c\<in>set u. \<not> is_space c" and nv: "\<forall>c\<in>set v. \<not> is_space c"
    and lu: "200 < length u" and lu2: "length u < 1000"
    and lv: "v \<noteq> []" and lv2: "length v < 999" and big: "1000 \<le> length u + length v"
  shows "split_text_rec (RecursiveCharacterTextSplitter 1000 200) (u @ CHR '' '' # v) ['' '', []]
     = Inr [u, v]"
proof -
  let ?sp = "RecursiveCharacterTextSplitter 1000 200"
  have bu: "CHR '' '' \<notin> set u" and bv: "CHR '' '' \<notin> set v"
    using nu nv is_space_blank by auto
  have ne: "u \<noteq> []" using lu by auto
  have ch: "choose_separator ['' '', []] (u @ CHR '' '' # v) = Some ('' '', [[]])"
    by (simp add: find_first_middle [OF bu])
  have sp: "split_text_with_regex (u @ CHR '' '' # v) '' '' True = [u, CHR '' '' # v]"
    using ne by (simp add: split_text_with_regex_def re_split_once [OF bu bv])
  have ks: "keep_separator ?sp" and cs: "chunk_size ?sp = 1000"
    by (simp_all add: RecursiveCharacterTextSplitter_def)
  have "split_text_rec ?sp (u @ CHR '' '' # v) ['' '', []]
      = split_loop ?sp [[]] [] [u, CHR '' '' # v] [] []"
    by (subst split_text_rec.simps) (simp add: ch ks sp del: choose_separator.simps)
  also have "\<dots> = Inr [u, v]"
    using lu2 lv2 by (simp add: cs merge_splits_two_words [OF nu nv lu lv big])
  finally show ?thesis .
qed

lemma chunk_text_two_words:
  assumes nu: "\<forall>c\<in>set u. \<not> is_space c" and nv: "\<forall>c\<in>set v. \<not> is_space c"
    and lu: "200 < length u" and lu2: "length u < 1000"
    and lv: "v \<noteq> []" and lv2: "length v < 999" and big: "1000 \<le> length u + length v"
  shows "chunk_text (u @ '' '' @ v @ [newline])
     = Inr [\<lparr>page_content = u, metadata = []\<rparr>, \<lparr>page_content = v, metadata = []\<rparr>]"
proof -
  let ?sp = "RecursiveCharacterTextSplitter 1000 200"
  define w where "w = u @ CHR '' '' # v"
  have nin: "CHR 0x0A \<notin> set w"
    using nu nv is_space_newline by (auto simp: w_def)
  have ne: "w \<noteq> []" by (simp add: w_def)
  have lw: "\<not> length w < 1000" using big by (simp add: w_def)
  have ch: "choose_separator [[CHR 0x0A, CHR 0x0A], [CHR 0x0A], '' '', []] (w @ [CHR 0x0A])
      = Some ([CHR 0x0A], ['' '', []])"
    by (simp add: find_first_no_double [OF nin] find_first_last_char [OF nin])
  have "re_split [CHR 0x0A] [] = [[]]"
    by (subst re_split.simps) simp
  then have rs: "re_split [CHR 0x0A] (w @ [CHR 0x0A]) = [w, []]"
    by (subst re_split.simps) (simp add: find_first_last_char [OF nin])
  have sp: "split_text_with_regex (w @ [CHR 0x0A]) [CHR 0x0A] True = [w, [CHR 0x0A]]"
    using ne by (simp add: split_text_with_regex_def rs)
  have ks: "keep_separator ?sp" and cs: "chunk_size ?sp = 1000"
    by (simp_all add: RecursiveCharacterTextSplitter_def)
  have rec: "split_text_rec ?sp w ['' '', []] = Inr [u, v]"
    unfolding w_def by (rule split_text_rec_two_words [OF assms])
  have "split_text_rec ?sp (w @ [CHR 0x0A]) [[CHR 0x0A, CHR 0x0A], [CHR 0x0A], '' '', []]
      = split_loop ?sp ['' '', []] [] [w, [CHR 0x0A]] [] []"
    by (subst split_text_rec.simps) (simp add: ch ks sp del: choose_separator.simps)
  also have "\<dots> = Inr [u, v]"
    using lw by (simp add: cs rec merge_splits_newline)
  finally have "split_text ?sp (w @ [CHR 0x0A]) = Inr [u, v]"
    by (simp add: split_text_def RecursiveCharacterTextSplitter_def)
  then show ?thesis
    by (simp add: chunk_text_def Let_def create_documents_one newline_def w_def)
qed


section \<open>Reassembly and the count of chunks\<close>

text \<open>
  C2, as stated, fails, in two ways. The splitter strips white space from the ends of every
  chunk: the page text \<open>"hello world"\<close> is extracted with a newline after it, its one chunk is
  \<open>"hello world"\<close>, and the chunks put together lack the newline of the input. And the
  splitter prefers to cut at separators: the text of 600 letters \<open>a\<close>, a blank, 600 letters
  \<open>b\<close> and a newline has the two chunks of 600 letters, which share nothing, so that dropping
  200 characters from the second loses 200 letters \<open>b\<close> and the blank: 1000 characters are
  left of the 1201 that the text has without the white space at its ends.
\<close>

theorem chunks_reassemble_counterexample:
  "pages_loop [Inr ''hello world''] [] = Inr (''hello world'' @ [newline])
   \<and> chunk_text (''hello world'' @ [newline]) = Inr [\<lparr>page_content = ''hello world'', metadata = []\<rparr>]
   \<and> drop_overlap_concat 200 (map page_content [\<lparr>page_content = ''hello world'', metadata = []\<rparr>])
        \<noteq> ''hello world'' @ [newline]
   \<and> chunk_text (replicate 600 (CHR ''a'') @ '' '' @ replicate 600 (CHR ''b'') @ [newline])
        = Inr [\<lparr>page_content = replicate 600 (CHR ''a''), metadata = []\<rparr>,
               \<lparr>page_content = replicate 600 (CHR ''b''), metadata = []\<rparr>]
   \<and> drop_overlap_concat 200
        (map page_content [\<lparr>page_content = replicate 600 (CHR ''a''), metadata = []\<rparr>,
                           \<lparr>page_content = replicate 600 (CHR ''b''), metadata = []\<rparr>])
        = replicate 600 (CHR ''a'') @ replicate 400 (CHR ''b'')
   \<and> length (replicate 600 (CHR ''a'') @ replicate 400 (CHR ''b'')) = 1000
   \<and> length (strip (replicate 600 (CHR ''a'') @ '' '' @ replicate 600 (CHR ''b'') @ [newline])) = 1201"
proof -
  have na: "\<forall>c\<in>set (replicate 600 (CHR ''a'')). \<not> is_space c"
    and nb: "\<forall>c\<in>set (replicate 600 (CHR ''b'')). \<not> is_space c"
    by (simp_all add: is_space_def)
  have c1: "chunk_text (''hello world'' @ [newline])
      = Inr [\<lparr>page_content = ''hello world'', metadata = []\<rparr>]"
    by code_simp
  have c2: "chunk_text (replicate 600 (CHR ''a'') @ '' '' @ replicate 600 (CHR ''b'') @ [newline])
        = Inr [\<lparr>page_content = replicate 600 (CHR ''a''), metadata = []\<rparr>,
               \<lparr>page_content = replicate 600 (CHR ''b''), metadata = []\<rparr>]"
    by (rule chunk_text_two_words [OF na nb]) simp_all
  have d: "drop 200 (replicate 600 (CHR ''b'')) = replicate 400 (CHR ''b'')"
    by simp
  have st: "strip (replicate 600 (CHR ''a'') @ '' '' @ replicate 600 (CHR ''b'') @ [newline])
      = replicate 600 (CHR ''a'') @ '' '' @ replicate 600 (CHR ''b'')"
  proof -
    have "dropWhile is_space (replicate 600 (CHR ''a'') @ '' '' @ replicate 600 (CHR ''b'') @ [newline])
        = replicate 600 (CHR ''a'') @ '' '' @ replicate 600 (CHR ''b'') @ [newline]"
      by (simp add: is_space_def dropWhile_append3)
    moreover have "dropWhile is_space (rev (replicate 600 (CHR ''b'')) @ '' '' @ rev (replicate 600 (CHR ''a'')))
        = rev (replicate 600 (CHR ''b'')) @ '' '' @ rev (replicate 600 (CHR ''a''))"
      by (simp add: is_space_def dropWhile_append3)
    ultimately show ?thesis
      by (simp add: strip_def newline_def is_space_newline)
  qed
  show ?thesis
    by (simp only: c1 c2 st) (simp add: newline_def)
qed

text \<open>
  C2, amended. For every text that is shorter than 1000 characters, and for every text without
  white space, also when one newline follows it (the extracted text of one page without white
  space), the chunks put together, with the first 200 characters dropped from every chunk after
  the first, are the input text without the white space at its two ends (the input text itself
  when it neither starts nor ends with white space).
\<close>

theorem chunks_reassemble_stripped:
  assumes "length raw_text < 1000
     \<or> (\<forall>c\<in>set t. \<not> is_space c) \<and> (raw_text = t \<or> raw_text = t @ [newline])"
  shows "\<exists>docs. chunk_text raw_text = Inr docs
     \<and> drop_overlap_concat 200 (map page_content docs) = strip raw_text"
proof (cases "length raw_text < 1000")
  case True
  then show ?thesis by (simp add: chunk_text_short)
next
  case False
  with assms have ns: "\<forall>c\<in>set t. \<not> is_space c"
    and rt: "raw_text = t \<or> raw_text = t @ [newline]"
    by blast+
  from False rt have ne: "t \<noteq> []" by auto
  have w: "map page_content (map (\<lambda>chunk. \<lparr>page_content = chunk, metadata = []\<rparr>)
          (windows 1000 800 t)) = windows 1000 800 t"
    by (simp add: comp_def)
  from rt show ?thesis
  proof
    assume "raw_text = t"
    then show ?thesis
      using ne chunk_text_no_space [OF ns] w
      by (simp add: windows_reassemble strip_no_space [OF ns])
  next
    assume "raw_text = t @ [newline]"
    then show ?thesis
      using chunk_text_trailing_newline [OF ns ne] w strip_trailing_newline [OF ns]
      by (simp add: windows_reassemble newline_def)
  qed
qed

theorem chunks_reassemble_stripped_witness:
  "length ('' hello world'' @ [newline]) < 1000
   \<and> (\<exists>docs. chunk_text ('' hello world'' @ [newline]) = Inr docs
        \<and> drop_overlap_concat 200 (map page_content docs) = ''hello world'')
   \<and> list_all (\<lambda>c. \<not> is_space c) (replicate 1500 (CHR ''a''))
   \<and> (\<exists>docs. chunk_text (replicate 1500 (CHR ''a'') @ [newline]) = Inr docs
        \<and> drop_overlap_concat 200 (map page_content docs) = replicate 1500 (CHR ''a''))"
proof -
  have h1: "length ('' hello world'' @ [newline]) < 1000" by simp
  have s1: "strip ('' hello world'' @ [newline]) = ''hello world''"
    by code_simp
  have h2: "\<forall>c\<in>set (replicate 1500 (CHR ''a'')). \<not> is_space c"
    by (simp add: is_space_def)
  have s2: "strip (replicate 1500 (CHR ''a'') @ [newline]) = replicate 1500 (CHR ''a'')"
    using strip_trailing_newline [OF h2] by (simp add: newline_def)
  have l2: "list_all (\<lambda>c. \<not> is_space c) (replicate 1500 (CHR ''a''))"
    using h2 by (simp only: list_all_iff)
  have a: "\<exists>docs. chunk_text ('' hello world'' @ [newline]) = Inr docs
        \<and> drop_overlap_concat 200 (map page_content docs) = ''hello world''"
    using chunks_reassemble_stripped [OF disjI1 [OF h1]] by (simp only: s1)
  have b: "\<exists>docs. chunk_text (replicate 1500 (CHR ''a'') @ [newline]) = Inr docs
        \<and> drop_overlap_concat 200 (map page_content docs) = replicate 1500 (CHR ''a'')"
    using chunks_reassemble_stripped [OF disjI2 [OF conjI [OF h2 disjI2 [OF refl]]]]
    by (simp only: s2)
  from h1 a l2 b show ?thesis by blast
qed

text \<open>
  C4, as stated, fails: a PDF whose one page has the text of 4999 letters \<open>a\<close> is extracted as
  a text of 5000 characters (the page's text and the newline after it), and its upload reports
  \<open>total_chunks = 6\<close>, not 5: the chunks start every 800 characters, at 0, 800, ..., 4000.
\<close>

theorem ingest_5000_chars_counterexample:
  "pages_loop [Inr (replicate 4999 (CHR ''a''))] [] = Inr (replicate 4999 (CHR ''a'') @ [newline])
   \<and> length (replicate 4999 (CHR ''a'') @ [newline]) = 5000
   \<and> fst (upload_file (env_ok [Inr (replicate 4999 (CHR ''a''))]) report_pdf world0)
      = Inr \<lparr>message = ''File successfully uploaded and processed.'',
              response_filename = ''report.pdf'', total_chunks = 6\<rparr>"
proof -
  have ne: "replicate 4999 (CHR ''a'') \<noteq> []" by simp
  have pdf: "endswith (filename report_pdf) ''.pdf''"
    by (simp add: report_pdf_def endswith_def)
  have saved: "save_outcome (env_ok [Inr (replicate 4999 (CHR ''a''))])
      (os_path_join UPLOAD_FOLDER (filename report_pdf)) (content report_pdf) = Saved"
    by (simp add: env_ok_def)
  have reader: "pdf_reader (env_ok [Inr (replicate 4999 (CHR ''a''))]) (content report_pdf)
      = Inr [Inr (replicate 4999 (CHR ''a''))]"
    by (simp add: env_ok_def)
  have store: "\<forall>batch. fst (from_documents (env_ok [Inr (replicate 4999 (CHR ''a''))])
      (index world0) batch) = None"
    by (simp add: env_ok_def)
  have six: "length (windows 1000 800 (replicate 4999 (CHR ''a''))) = 6"
    by (subst windows_six) simp_all
  have "fst (upload_file (env_ok [Inr (replicate 4999 (CHR ''a''))]) report_pdf world0)
      = Inr \<lparr>message = ''File successfully uploaded and processed.'',
              response_filename = filename report_pdf,
              total_chunks = length (windows 1000 800 (replicate 4999 (CHR ''a'')))\<rparr>"
    by (rule upload_single_page_chunks [OF pdf saved reader no_space_a ne store])
  then show ?thesis using six ne by (simp add: report_pdf_def)
qed

text \<open>
  C4, amended. When the extracted text has 5000 characters, namely a page text without white
  space followed by the newline that the extractor appends, the chunker returns 6 chunks, each
  adjacent pair of chunks shares 200 characters (the last 200 of one are the first 200 of the
  next), and the upload reports \<open>total_chunks = 6\<close> (the upload is saved and the vector store
  takes the batch).
\<close>

theorem ingest_5000_chars_six_chunks:
  assumes "length t = 4999" and "\<forall>c\<in>set t. \<not> is_space c"
    and "endswith (filename file) ''.pdf''"
    and "save_outcome env (os_path_join UPLOAD_FOLDER (filename file)) (content file) = Saved"
    and "pdf_reader env (content file) = Inr [Inr t]"
    and "\<forall>batch. fst (from_documents env (index w) batch) = None"
  shows "pages_loop [Inr t] [] = Inr (t @ [newline])
     \<and> length (t @ [newline]) = 5000
     \<and> (\<exists>docs. chunk_text (t @ [newline]) = Inr docs
          \<and> length docs = 6
          \<and> (\<forall>i<5. drop (length (page_content (docs ! i)) - 200) (page_content (docs ! i))
                      = take 200 (page_content (docs ! Suc i))
                    \<and> length (take 200 (page_content (docs ! Suc i))) = 200))
     \<and> fst (upload_file env file w)
        = Inr \<lparr>message = ''File successfully uploaded and processed.'',
                response_filename = filename file, total_chunks = 6\<rparr>"
proof -
  have ne: "t \<noteq> []" using assms(1) by auto
  have b1: "4200 < length t" and b2: "length t \<le> 5000" using assms(1) by simp_all
  have six: "length (windows 1000 800 t) = 6"
    by (simp add: windows_six [OF b1 b2])
  define docs where
    "docs = map (\<lambda>chunk. \<lparr>page_content = chunk, metadata = []\<rparr>) (windows 1000 800 t)"
  have c: "chunk_text (t @ [newline]) = Inr docs"
    using chunk_text_trailing_newline [OF assms(2) ne] by (simp add: docs_def)
  have len: "length docs = 6" by (simp add: docs_def six)
  have nth: "page_content (docs ! i) = windows 1000 800 t ! i" if "i < 6" for i
    using that six by (simp add: docs_def)
  have ov: "\<forall>i<5. drop (length (page_content (docs ! i)) - 200) (page_content (docs ! i))
                      = take 200 (page_content (docs ! Suc i))
                    \<and> length (take 200 (page_content (docs ! Suc i))) = 200"
  proof (intro allI impI)
    fix i :: nat
    assume i: "i < 5"
    then have "i < 6" and "Suc i < 6" by simp_all
    then show "drop (length (page_content (docs ! i)) - 200) (page_content (docs ! i))
                      = take 200 (page_content (docs ! Suc i))
                    \<and> length (take 200 (page_content (docs ! Suc i))) = 200"
      using windows_six_overlap [OF b1 b2 i] by (simp only: nth)
  qed
  have up: "fst (upload_file env file w)
        = Inr \<lparr>message = ''File successfully uploaded and processed.'',
                response_filename = filename file, total_chunks = 6\<rparr>"
    using upload_single_page_chunks [OF assms(3) assms(4) assms(5) assms(2) ne assms(6)] six
    by simp
  have "pages_loop [Inr t] [] = Inr (t @ [newline])" using ne by simp
  moreover have "length (t @ [newline]) = 5000" using assms(1) by simp
  ultimately show ?thesis using c len ov up by blast
qed

theorem ingest_5000_chars_six_chunks_witness:
  "length (replicate 4999 (CHR ''x'')) = 4999
   \<and> list_all (\<lambda>c. \<not> is_space c) (replicate 4999 (CHR ''x''))
   \<and> endswith (filename report_pdf) ''.pdf''
   \<and> save_outcome (env_ok [Inr (replicate 4999 (CHR ''x''))])
        (os_path_join UPLOAD_FOLDER (filename report_pdf)) (content report_pdf) = Saved
   \<and> pdf_reader (env_ok [Inr (replicate 4999 (CHR ''x''))]) (content report_pdf)
        = Inr [Inr (replicate 4999 (CHR ''x''))]
   \<and> (\<forall>batch. fst (from_documents (env_ok [Inr (replicate 4999 (CHR ''x''))]) (index world0) batch)
        = None)
   \<and> fst (upload_file (env_ok [Inr (replicate 4999 (CHR ''x''))]) report_pdf world0)
        = Inr \<lparr>message = ''File successfully uploaded and processed.'',
                response_filename = filename report_pdf, total_chunks = 6\<rparr>"
proof -
  have h1: "length (replicate 4999 (CHR ''x'')) = 4999" by simp
  have h2: "\<forall>c\<in>set (replicate 4999 (CHR ''x'')). \<not> is_space c"
    by (simp add: is_space_def)
  have h3: "endswith (filename report_pdf) ''.pdf''"
    by (simp add: report_pdf_def endswith_def)
  have h4: "save_outcome (env_ok [Inr (replicate 4999 (CHR ''x''))])
        (os_path_join UPLOAD_FOLDER (filename report_pdf)) (content report_pdf) = Saved"
    by (simp add: env_ok_def)
  have h5: "pdf_reader (env_ok [Inr (replicate 4999 (CHR ''x''))]) (content report_pdf)
        = Inr [Inr (replicate 4999 (CHR ''x''))]"
    by (simp add: env_ok_def)
  have h6: "\<forall>batch. fst (from_documents (env_ok [Inr (replicate 4999 (CHR ''x''))]) (index world0) batch)
        = None"
    by (simp add: env_ok_def)
  from ingest_5000_chars_six_chunks [OF h1 h2 h3 h4 h5 h6]
  have "fst (upload_file (env_ok [Inr (replicate 4999 (CHR ''x''))]) report_pdf world0)
        = Inr \<lparr>message = ''File successfully uploaded and processed.'',
                response_filename = filename report_pdf, total_chunks = 6\<rparr>"
    by blast
  moreover have "list_all (\<lambda>c. \<not> is_space c) (replicate 4999 (CHR ''x''))"
    using h2 by (simp only: list_all_iff)
  ultimately show ?thesis using h1 h3 h4 h5 h6 by blast
qed


section \<open>The prompt of the answer pipeline\<close>

lemma format_template:
  "PromptTemplate_format template [''context'' \<mapsto> c, ''question'' \<mapsto> q]
     = Inr (expected_prompt c q)"
  by (simp add: PromptTemplate_format_def template_def expected_prompt_def newline_def)

lemma rag_chain_invoke_retrieved:
  assumes "retrieve env (index w) 3 input = Inr docs"
  shows "rag_chain_invoke env input w
     = (llm env (expected_prompt (format_docs docs) input),
        emit (LLMInvoke (expected_prompt (format_docs docs) input))
          (emit (VectorStoreQuery input) w))"
  using assms
  by (simp add: rag_chain_invoke_def Let_def format_template emit_def split: sum.splits)

text \<open>
  C5, as stated, fails in one of its three instructions: the prompt tells the model to use the
  retrieved context to answer the question, and nowhere tells it to answer only from that
  context. For the question \<open>"What is the capital of France?"\<close> on an index with one document,
  the prompt that the handler sends to the model is the text below, in which the word
  \<open>only\<close> does not occur.
\<close>

theorem chat_prompt_only_counterexample:
  "expected_prompt ''The capital of France is Paris.'' ''What is the capital of France?''
     = ''Use the following pieces of retrieved context to answer the question. '' @ [newline] @
       ''        If you don't know the answer, just say that you don't know. '' @ [newline] @
       ''        Keep the answer concise and professional.'' @ [newline] @
       ''        '' @ [newline] @
       ''        Context: The capital of France is Paris.'' @ [newline] @
       ''        '' @ [newline] @
       ''        Question: What is the capital of France?'' @ [newline] @
       ''        '' @ [newline] @
       ''        Answer:''
   \<and> events (snd (chat_with_document (env_ok []) \<lparr>question = ''What is the capital of France?''\<rparr>
                    world_paris))
     = [VectorStoreQuery ''What is the capital of France?'',
        LLMInvoke (expected_prompt ''The capital of France is Paris.''
                     ''What is the capital of France?'')]
   \<and> find_first ''only''
        (expected_prompt ''The capital of France is Paris.'' ''What is the capital of France?'')
     = None
   \<and> find_first ''Only''
        (expected_prompt ''The capital of France is Paris.'' ''What is the capital of France?'')
     = None"
proof -
  have r: "retrieve (env_ok []) (index world_paris) 3 ''What is the capital of France?''
      = Inr [\<lparr>page_content = ''The capital of France is Paris.'', metadata = []\<rparr>]"
    by (simp add: env_ok_def world_paris_def)
  have f: "format_docs [\<lparr>page_content = ''The capital of France is Paris.'', metadata = []\<rparr>]
      = ''The capital of France is Paris.''"
    by (simp add: format_docs_def)
  have l: "llm (env_ok []) p = Inr ''I don't know.''" for p
    by (simp add: env_ok_def)
  have e: "events (snd (chat_with_document (env_ok []) \<lparr>question = ''What is the capital of France?''\<rparr>
                    world_paris))
     = [VectorStoreQuery ''What is the capital of France?'',
        LLMInvoke (expected_prompt ''The capital of France is Paris.''
                     ''What is the capital of France?'')]"
    by (simp add: chat_with_document_def rag_chain_invoke_retrieved [OF r] f l emit_def)
       (simp add: world_paris_def world0_def)
  have n1: "find_first ''only''
        (expected_prompt ''The capital of France is Paris.'' ''What is the capital of France?'')
     = None"
    by code_simp
  have n2: "find_first ''Only''
        (expected_prompt ''The capital of France is Paris.'' ''What is the capital of France?'')
     = None"
    by code_simp
  have p: "expected_prompt ''The capital of France is Paris.'' ''What is the capital of France?''
     = ''Use the following pieces of retrieved context to answer the question. '' @ [newline] @
       ''        If you don't know the answer, just say that you don't know. '' @ [newline] @
       ''        Keep the answer concise and professional.'' @ [newline] @
       ''        '' @ [newline] @
       ''        Context: The capital of France is Paris.'' @ [newline] @
       ''        '' @ [newline] @
       ''        Question: What is the capital of France?'' @ [newline] @
       ''        '' @ [newline] @
       ''        Answer:''"
    by (simp add: expected_prompt_def)
  from p e n1 n2 show ?thesis by blast
qed

text \<open>
  C5, amended. For every context and question, whatever characters they contain, formatting the
  template gives the fixed prompt with the two put in as they are: the instructions to use the
  retrieved context to answer the question, to say so when the answer is not known, and to
  keep the answer concise and professional, then the lines \<open>Context:\<close>, \<open>Question:\<close> and
  \<open>Answer:\<close>. For every question, when the retrieval succeeds the handler sends exactly this
  prompt, with the formatted documents as the context, to the model, after the query to the
  vector store, and returns the model's answer, or the HTTP error 500 with \<open>str(e)\<close> when
  the model raises; when the retrieval raises, no prompt is sent and the result is the HTTP
  error 500.
\<close>

theorem chat_prompt_from_template:
  "(\<forall>c q. PromptTemplate_format template [''context'' \<mapsto> c, ''question'' \<mapsto> q]
             = Inr (expected_prompt c q)
          \<and> expected_prompt c q
             = ''Use the following pieces of retrieved context to answer the question. '' @ [newline] @
               ''        If you don't know the answer, just say that you don't know. '' @ [newline] @
               ''        Keep the answer concise and professional.'' @ [newline] @
               ''        '' @ [newline] @
               ''        Context: '' @ c @ [newline] @
               ''        '' @ [newline] @
               ''        Question: '' @ q @ [newline] @
               ''        '' @ [newline] @
               ''        Answer:'')
   \<and> (case retrieve env (index w) 3 (question request) of
         Inl e \<Rightarrow>
           chat_with_document env request w
             = (Inl (HTTPException 500 (str_exn e)),
                w\<lparr>events := events w @ [VectorStoreQuery (question request),
                                         Print (''CRITICAL ERROR: '' @ str_exn e)]\<rparr>)
       | Inr docs \<Rightarrow>
           (case llm env (expected_prompt (format_docs docs) (question request)) of
              Inl e \<Rightarrow>
                chat_with_document env request w
                  = (Inl (HTTPException 500 (str_exn e)),
                     w\<lparr>events := events w @
                         [VectorStoreQuery (question request),
                          LLMInvoke (expected_prompt (format_docs docs) (question request)),
                          Print (''CRITICAL ERROR: '' @ str_exn e)]\<rparr>)
            | Inr answer \<Rightarrow>
                chat_with_document env request w
                  = (Inr answer,
                     w\<lparr>events := events w @
                         [VectorStoreQuery (question request),
                          LLMInvoke (expected_prompt (format_docs docs) (question request))]\<rparr>)))"
proof -
  have run: "case retrieve env (index w) 3 (question request) of
         Inl e \<Rightarrow>
           chat_with_document env request w
             = (Inl (HTTPException 500 (str_exn e)),
                w\<lparr>events := events w @ [VectorStoreQuery (question request),
                                         Print (''CRITICAL ERROR: '' @ str_exn e)]\<rparr>)
       | Inr docs \<Rightarrow>
           (case llm env (expected_prompt (format_docs docs) (question request)) of
              Inl e \<Rightarrow>
                chat_with_document env request w
                  = (Inl (HTTPException 500 (str_exn e)),
                     w\<lparr>events := events w @
                         [VectorStoreQuery (question request),
                          LLMInvoke (expected_prompt (format_docs docs) (question request)),
                          Print (''CRITICAL ERROR: '' @ str_exn e)]\<rparr>)
            | Inr answer \<Rightarrow>
                chat_with_document env request w
                  = (Inr answer,
                     w\<lparr>events := events w @
                         [VectorStoreQuery (question request),
                          LLMInvoke (expected_prompt (format_docs docs) (question request))]\<rparr>))"
  proof (cases "retrieve env (index w) 3 (question request)")
    case (Inl e)
    then show ?thesis
      by (simp add: chat_with_document_def rag_chain_invoke_def Let_def emit_def)
  next
    case (Inr docs)
    note r = rag_chain_invoke_retrieved [OF Inr]
    show ?thesis
      by (cases "llm env (expected_prompt (format_docs docs) (question request))")
         (simp_all add: Inr chat_with_document_def r emit_def)
  qed
  have lit: "expected_prompt c q
             = ''Use the following pieces of retrieved context to answer the question. '' @ [newline] @
               ''        If you don't know the answer, just say that you don't know. '' @ [newline] @
               ''        Keep the answer concise and professional.'' @ [newline] @
               ''        '' @ [newline] @
               ''        Context: '' @ c @ [newline] @
               ''        '' @ [newline] @
               ''        Question: '' @ q @ [newline] @
               ''        '' @ [newline] @
               ''        Answer:''" for c q
    by (simp add: expected_prompt_def)
  from run lit format_template show ?thesis by blast
qed

theorem chat_prompt_from_template_witness:
  "chat_with_document (env_ok []) \<lparr>question = ''What is the capital of France?''\<rparr> world_paris
     = (Inr ''I don't know.'',
        world_paris\<lparr>events :=
          [VectorStoreQuery ''What is the capital of France?'',
           LLMInvoke (expected_prompt ''The capital of France is Paris.''
                        ''What is the capital of France?'')]\<rparr>)"
proof -
  have r: "retrieve (env_ok []) (index world_paris) 3 ''What is the capital of France?''
      = Inr [\<lparr>page_content = ''The capital of France is Paris.'', metadata = []\<rparr>]"
    by (simp add: env_ok_def world_paris_def)
  have f: "format_docs [\<lparr>page_content = ''The capital of France is Paris.'', metadata = []\<rparr>]
      = ''The capital of France is Paris.''"
    by (simp add: format_docs_def)
  have l: "llm (env_ok []) p = Inr ''I don't know.''" for p
    by (simp add: env_ok_def)
  have ev: "events world_paris = []" by (simp add: world_paris_def world0_def)
  from chat_prompt_from_template [where env = "env_ok []" and w = world_paris
      and request = "\<lparr>question = ''What is the capital of France?''\<rparr>"]
  show ?thesis by (simp add: r f l ev)
qed


end
